theory Spec2Isabelle
  imports Complex_Main "HOL-Library.Multiset"
begin

section \<open>Property Finder: listings, price model and search engine\<close>

text \<open>
  A shallow embedding of \<^verbatim>\<open>property.h\<close>, \<^verbatim>\<open>property.cpp\<close>, \<^verbatim>\<open>ml_predictor.cpp\<close> and
  \<^verbatim>\<open>search_engine.cpp\<close>.

  Conventions of the embedding.
  \<^item> A C++ \<^verbatim>\<open>double\<close> is a \<^typ>\<open>real\<close>: arithmetic is exact, and there is no infinity and
    no NaN. Where the C++ divides by zero the model yields 0 (HOL's convention); no theorem
    below relies on the value of such a quotient.
  \<^item> A C++ \<^verbatim>\<open>int\<close> is an \<^typ>\<open>int\<close>; the values in play (identifiers, room counts, category
    codes, result limits) are far from the 32-bit bounds.
  \<^item> A \<^verbatim>\<open>std::vector\<close> is a list, a \<^verbatim>\<open>std::map<std::string, int>\<close> that is only searched
    and inserted into is a map \<open>string \<rightharpoonup> int\<close>, and a \<^verbatim>\<open>std::map\<close> that is iterated is the
    list of its entries in iteration order.
  \<^item> A member function that mutates the object takes the object and returns the new one,
    next to its return value.
  \<^item> Diagnostic output on \<^verbatim>\<open>std::cout\<close> and \<^verbatim>\<open>std::cerr\<close> is not modelled.
\<close>

subsection \<open>Listings (\<^verbatim>\<open>class Property\<close>)\<close>

record Property =
  getId :: int
  getCity :: string
  getPrice :: real
  getBedrooms :: int
  getBathrooms :: int
  getSize :: real
  getType :: string
  getLatitude :: real
  getLongitude :: real
  getAmenities :: "string list"
  getPredictedPrice :: real

subsection \<open>The price model (\<^verbatim>\<open>class MLPredictor\<close>)\<close>

record MLPredictor =
  model_type :: string
  is_trained :: bool
  weights :: "real list"
  bias :: real
  feature_means :: "real list"
  feature_stds :: "real list"
  city_encoding :: "string \<rightharpoonup> int"
  type_encoding :: "string \<rightharpoonup> int"

text \<open>The constructor \<^verbatim>\<open>MLPredictor::MLPredictor()\<close>.\<close>

definition new_MLPredictor :: MLPredictor where
  "new_MLPredictor =
     \<lparr>model_type = ''linear_regression'', is_trained = False, weights = [], bias = 0,
      feature_means = [], feature_stds = [],
      city_encoding = Map.empty, type_encoding = Map.empty\<rparr>"

text \<open>\<^verbatim>\<open>std::vector::resize(n, v)\<close>: elements that are already there keep their value.\<close>

definition resize :: "'a list \<Rightarrow> nat \<Rightarrow> 'a \<Rightarrow> 'a list" where
  "resize xs n v = take n xs @ replicate (n - length xs) v"

text \<open>
  \<^verbatim>\<open>encodeCategorical\<close>: a known value yields its code; an unknown value is inserted
  with the current size of the table as its code.
\<close>

definition encodeCategorical :: "string \<Rightarrow> (string \<rightharpoonup> int) \<Rightarrow> int \<times> (string \<rightharpoonup> int)" where
  "encodeCategorical v encoding =
     (case encoding v of
        Some code \<Rightarrow> (code, encoding)
      | None \<Rightarrow> (let new_code = int (card (dom encoding))
                 in (new_code, encoding(v \<mapsto> new_code))))"

text \<open>\<^verbatim>\<open>initializeEncodings\<close>: both tables are cleared, then filled in input order.\<close>

definition initializeEncodings :: "Property list \<Rightarrow> MLPredictor \<Rightarrow> MLPredictor" where
  "initializeEncodings data m =
     fold (\<lambda>p m'.
             let m1 = m'\<lparr>city_encoding := snd (encodeCategorical (getCity p) (city_encoding m'))\<rparr>
             in m1\<lparr>type_encoding := snd (encodeCategorical (getType p) (type_encoding m1))\<rparr>)
          data (m\<lparr>city_encoding := Map.empty, type_encoding := Map.empty\<rparr>)"

text \<open>
  \<^verbatim>\<open>extractFeatures\<close>: the nine features in their fixed order. The two calls of
  \<^verbatim>\<open>encodeCategorical\<close> work on the member tables, so the model is returned as well.
\<close>

definition extractFeatures :: "Property \<Rightarrow> MLPredictor \<Rightarrow> real list \<times> MLPredictor" where
  "extractFeatures p m =
     (let (c, ce) = encodeCategorical (getCity p) (city_encoding m);
          m1 = m\<lparr>city_encoding := ce\<rparr>;
          (t, te) = encodeCategorical (getType p) (type_encoding m1);
          m2 = m1\<lparr>type_encoding := te\<rparr>
      in ([real_of_int c, real_of_int t,
           real_of_int (getBedrooms p), real_of_int (getBathrooms p),
           getSize p, getLatitude p, getLongitude p,
           getSize p / real_of_int (getBedrooms p),
           real (length (getAmenities p))], m2))"

text \<open>
  \<^verbatim>\<open>calculateNormalizationParams\<close>: four loops over the columns. The two vectors are
  resized, not cleared, before the sums are accumulated into them.
\<close>

definition calculateNormalizationParams :: "real list list \<Rightarrow> MLPredictor \<Rightarrow> MLPredictor" where
  "calculateNormalizationParams features m =
     (if features = [] then m
      else
        let num_features = length (features ! 0);
            means0 = resize (feature_means m) num_features 0;
            stds0 = resize (feature_stds m) num_features 0;
            means1 = fold (\<lambda>feature_vec ms.
                        fold (\<lambda>i ms. ms[i := ms ! i + feature_vec ! i]) [0..<num_features] ms)
                      features means0;
            means2 = fold (\<lambda>i ms. ms[i := ms ! i / real (length features)])
                      [0..<num_features] means1;
            stds1 = fold (\<lambda>feature_vec ss.
                        fold (\<lambda>i ss. ss[i := ss ! i + (feature_vec ! i - means2 ! i)\<^sup>2])
                          [0..<num_features] ss)
                      features stds0;
            stds2 = fold (\<lambda>i ss.
                        let s = sqrt (ss ! i / real (length features))
                        in ss[i := (if s = 0 then 1 else s)])
                      [0..<num_features] stds1
        in m\<lparr>feature_means := means2, feature_stds := stds2\<rparr>)"

text \<open>\<^verbatim>\<open>normalizeFeatureVector\<close>: the loop stops at the shorter of the two vectors.\<close>

definition normalizeFeatureVector :: "MLPredictor \<Rightarrow> real list \<Rightarrow> real list" where
  "normalizeFeatureVector m features =
     fold (\<lambda>i normalized.
             normalized[i := (normalized ! i - feature_means m ! i) / feature_stds m ! i])
          [0..<min (length features) (length (feature_means m))] features"

text \<open>\<^verbatim>\<open>predict\<close>: 0 on a dimension mismatch, else the affine form clamped at 0.\<close>

definition predict :: "MLPredictor \<Rightarrow> real list \<Rightarrow> real" where
  "predict m features =
     (if length features \<noteq> length (weights m) then 0
      else max 0 (fold (\<lambda>i result. result + weights m ! i * features ! i)
                       [0..<length features] (bias m)))"

text \<open>One iteration of the batch gradient descent in \<^verbatim>\<open>trainLinearRegression\<close>.\<close>

definition gradient_step :: "real list list \<Rightarrow> real list \<Rightarrow> nat \<Rightarrow> MLPredictor \<Rightarrow> MLPredictor" where
  "gradient_step X y num_features m =
     (let (weight_gradients, bias_gradient) =
            fold (\<lambda>i (wg, bg).
                    let err = predict m (X ! i) - y ! i
                    in (fold (\<lambda>j wg. wg[j := wg ! j + err * X ! i ! j]) [0..<num_features] wg,
                        bg + err))
                 [0..<length X] (replicate num_features 0, 0);
          ws = fold (\<lambda>j ws. ws[j := ws ! j - (1 / 100) * weight_gradients ! j / real (length X)])
                 [0..<num_features] (weights m)
      in m\<lparr>weights := ws, bias := bias m - (1 / 100) * bias_gradient / real (length X)\<rparr>)"

definition trainLinearRegression :: "real list list \<Rightarrow> real list \<Rightarrow> MLPredictor \<Rightarrow> MLPredictor" where
  "trainLinearRegression X y m =
     (if X = [] \<or> length X \<noteq> length y then m
      else
        let num_features = length (X ! 0);
            m0 = m\<lparr>weights := resize (weights m) num_features 0, bias := 0\<rparr>
        in ((gradient_step X y num_features) ^^ 1000) m0)"

text \<open>The loop of \<^verbatim>\<open>trainModel\<close> that fills the feature matrix.\<close>

fun extract_all :: "Property list \<Rightarrow> MLPredictor \<Rightarrow> real list list \<times> MLPredictor" where
  "extract_all [] m = ([], m)"
| "extract_all (p # ps) m =
     (let (f, m1) = extractFeatures p m;
          (X, m2) = extract_all ps m1
      in (f # X, m2))"

definition trainModel :: "Property list \<Rightarrow> MLPredictor \<Rightarrow> bool \<times> MLPredictor" where
  "trainModel training_data m =
     (if training_data = [] then (False, m)
      else
        let m1 = initializeEncodings training_data m;
            (X, m2) = extract_all training_data m1;
            y = map getPrice training_data;
            m3 = calculateNormalizationParams X m2;
            Xn = map (normalizeFeatureVector m3) X;
            m4 = (if model_type m3 = ''linear_regression''
                  then trainLinearRegression Xn y m3 else m3)
        in (True, m4\<lparr>is_trained := True\<rparr>))"

definition predictPrice :: "Property \<Rightarrow> MLPredictor \<Rightarrow> real \<times> MLPredictor" where
  "predictPrice p m =
     (if \<not> is_trained m then (0, m)
      else
        let (features, m1) = extractFeatures p m;
            normalized_features = normalizeFeatureVector m1 features
        in (predict m1 normalized_features, m1))"

subsection \<open>Numbers as text (\<^verbatim>\<open>std::stod\<close>, \<^verbatim>\<open>std::stoi\<close>, \<^verbatim>\<open>operator<<\<close>)\<close>

text \<open>
  The standard-library conversions the program calls, on decimal text. \<^verbatim>\<open>std::stod\<close> and
  \<^verbatim>\<open>std::stoi\<close> skip leading white space, read the longest numeric prefix, ignore what
  follows it, and throw \<^verbatim>\<open>std::invalid_argument\<close> when there is no such prefix;
  \<^verbatim>\<open>std::stoi\<close> throws \<^verbatim>\<open>std::out_of_range\<close> outside the 32-bit range. The hexadecimal,
  infinity and NaN spellings that \<^verbatim>\<open>std::stod\<close> also accepts, and its range error, have no
  counterpart in \<^typ>\<open>real\<close> and are left out.
\<close>

datatype error = InvalidArgument | OutOfRange

definition isspace :: "char \<Rightarrow> bool" where
  "isspace c = (c \<in> {CHR '' '', CHR 0x09, CHR 0x0A, CHR 0x0B, CHR 0x0C, CHR 0x0D})"

definition isdigit :: "char \<Rightarrow> bool" where
  "isdigit c = (c \<in> set ''0123456789'')"

definition digit_val :: "char \<Rightarrow> nat" where
  "digit_val c = of_char c - 48"

definition digits_val :: "string \<Rightarrow> nat" where
  "digits_val ds = foldl (\<lambda>n c. 10 * n + digit_val c) 0 ds"

definition parse_sign :: "string \<Rightarrow> bool \<times> string" where
  "parse_sign s =
     (case s of
        [] \<Rightarrow> (False, s)
      | c # r \<Rightarrow> if c = CHR ''-'' then (True, r) else if c = CHR ''+'' then (False, r)
                 else (False, s))"

definition stoi :: "string \<Rightarrow> error + int" where
  "stoi s =
     (let (neg, s1) = parse_sign (dropWhile isspace s);
          ds = takeWhile isdigit s1
      in if ds = [] then Inl InvalidArgument
         else
           let v = (if neg then - int (digits_val ds) else int (digits_val ds))
           in if v < - (2 ^ 31) \<or> 2 ^ 31 - 1 < v then Inl OutOfRange else Inr v)"

definition parse_exponent :: "string \<Rightarrow> int" where
  "parse_exponent s =
     (case s of
        [] \<Rightarrow> 0
      | c # r \<Rightarrow>
          if c = CHR ''e'' \<or> c = CHR ''E'' then
            (let (neg, r1) = parse_sign r;
                 ds = takeWhile isdigit r1
             in if ds = [] then 0
                else if neg then - int (digits_val ds) else int (digits_val ds))
          else 0)"

definition parse_fraction :: "string \<Rightarrow> string \<times> string" where
  "parse_fraction s =
     (case s of
        [] \<Rightarrow> ([], s)
      | c # r \<Rightarrow> if c = CHR ''.'' then (takeWhile isdigit r, dropWhile isdigit r)
                 else ([], s))"

definition stod :: "string \<Rightarrow> error + real" where
  "stod s =
     (let (neg, s1) = parse_sign (dropWhile isspace s);
          ip = takeWhile isdigit s1;
          s2 = dropWhile isdigit s1;
          (fp, s3) = parse_fraction s2
      in if ip = [] \<and> fp = [] then Inl InvalidArgument
         else
           let mant = real (digits_val (ip @ fp)) / 10 ^ length fp;
               v = mant * 10 powi parse_exponent s3
           in Inr (if neg then - v else v))"

text \<open>
  \<^verbatim>\<open>operator<<\<close> on a \<^verbatim>\<open>double\<close> with the stream's default flags formats like
  \<^verbatim>\<open>printf("%g")\<close> with precision 6: the value is rounded to six significant decimal
  digits (ties to even), written in scientific notation when the decimal exponent is below
  -4 or at least 6 and in fixed notation otherwise, with trailing zeros (and a trailing
  point) removed and an exponent of at least two digits.
\<close>

function exp_up :: "real \<Rightarrow> int" where
  "exp_up x = (if 10 \<le> x then 1 + exp_up (x / 10) else 0)"
  by pat_completeness auto
termination
proof (relation "measure (\<lambda>x. nat \<lfloor>x\<rfloor>)")
  fix x :: real
  assume "10 \<le> x"
  then have "\<lfloor>x / 10\<rfloor> < \<lfloor>x\<rfloor>" by linarith
  moreover have "0 < \<lfloor>x\<rfloor>" using \<open>10 \<le> x\<close> by linarith
  ultimately show "(x / 10, x) \<in> measure (\<lambda>x. nat \<lfloor>x\<rfloor>)" by simp
qed simp

function exp_down :: "real \<Rightarrow> int" where
  "exp_down x = (if 0 < x \<and> x < 1 then exp_down (x * 10) - 1 else 0)"
  by pat_completeness auto
termination
proof (relation "measure (\<lambda>x. nat \<lfloor>1 / x\<rfloor>)")
  fix x :: real
  assume "0 < x \<and> x < 1"
  then have y: "1 < 1 / x" by simp
  then have pos: "0 < \<lfloor>1 / x\<rfloor>" by linarith
  have "\<lfloor>(1 / x) / 10\<rfloor> < \<lfloor>1 / x\<rfloor>"
  proof (cases "1 / x < 10")
    case True
    then have "\<lfloor>(1 / x) / 10\<rfloor> = 0" using y \<open>0 < x \<and> x < 1\<close>
      by (intro floor_unique) (auto simp: field_simps)
    then show ?thesis using pos by simp
  next
    case False
    have aux: "\<lfloor>y / 10\<rfloor> < \<lfloor>y\<rfloor>" if "10 \<le> y" for y :: real
      using that by linarith
    from False have "10 \<le> 1 / x" by simp
    then show ?thesis by (rule aux)
  qed
  with pos show "(x * 10, x) \<in> measure (\<lambda>x. nat \<lfloor>1 / x\<rfloor>)" by (simp add: field_simps)
qed simp

definition dec_exponent :: "real \<Rightarrow> int" where
  "dec_exponent x = (if 1 \<le> x then exp_up x else exp_down x)"

definition round_half_even :: "real \<Rightarrow> int" where
  "round_half_even x =
     (let f = \<lfloor>x\<rfloor>; r = x - of_int f
      in if r < 1 / 2 then f else if 1 / 2 < r then f + 1
         else if even f then f else f + 1)"

definition digit_char :: "nat \<Rightarrow> char" where
  "digit_char d = ''0123456789'' ! d"

text \<open>The \<open>k\<close> low decimal digits of \<open>n\<close>, most significant first.\<close>

fun digits_of :: "nat \<Rightarrow> nat \<Rightarrow> string" where
  "digits_of k n =
     (if k = 0 then [] else digits_of (k - 1) (n div 10) @ [digit_char (n mod 10)])"

fun show_nat :: "nat \<Rightarrow> string" where
  "show_nat n = (if n < 10 then [digit_char n] else show_nat (n div 10) @ [digit_char (n mod 10)])"

declare exp_up.simps [simp del] exp_down.simps [simp del] digits_of.simps [simp del]
  show_nat.simps [simp del]

definition strip_zeros :: "string \<Rightarrow> string" where
  "strip_zeros s = rev (dropWhile (\<lambda>c. c = CHR ''0'') (rev s))"

definition with_fraction :: "string \<Rightarrow> string \<Rightarrow> string" where
  "with_fraction ip fp = (if strip_zeros fp = [] then ip else ip @ ''.'' @ strip_zeros fp)"

definition show_exponent :: "int \<Rightarrow> string" where
  "show_exponent e =
     ''e'' @ (if e < 0 then ''-'' else ''+'')
           @ (if \<bar>e\<bar> < 10 then ''0'' else []) @ show_nat (nat \<bar>e\<bar>)"

definition show_positive :: "real \<Rightarrow> string" where
  "show_positive x =
     (let e0 = dec_exponent x;
          n0 = nat (round_half_even (x * 10 powi (5 - e0)));
          (n, e) = (if n0 = 1000000 then (100000, e0 + 1) else (n0, e0));
          ds = digits_of 6 n
      in if e < -4 \<or> 6 \<le> e then with_fraction (take 1 ds) (drop 1 ds) @ show_exponent e
         else if 0 \<le> e then with_fraction (take (nat e + 1) ds) (drop (nat e + 1) ds)
         else with_fraction ''0'' (replicate (nat (- e - 1)) (CHR ''0'') @ ds))"

definition show_double :: "real \<Rightarrow> string" where
  "show_double x =
     (if x = 0 then ''0'' else if x < 0 then ''-'' @ show_positive (- x) else show_positive x)"

subsection \<open>Persistence (\<^verbatim>\<open>saveModel\<close>, \<^verbatim>\<open>loadModel\<close>)\<close>

text \<open>
  A model file is its text. \<^verbatim>\<open>std::getline\<close> fails at the end of the stream when it
  extracts nothing; otherwise it yields the characters up to the next line feed, which it
  consumes.
\<close>

definition endl :: string where
  "endl = [CHR 0x0A]"

definition getline :: "string \<Rightarrow> (string \<times> string) option" where
  "getline s =
     (if s = [] then None
      else Some (takeWhile (\<lambda>c. c \<noteq> CHR 0x0A) s, drop 1 (dropWhile (\<lambda>c. c \<noteq> CHR 0x0A) s)))"

text \<open>
  \<^verbatim>\<open>saveModel\<close>: \<open>can_open\<close> says whether the output file can be created. The result is
  the return value and the text written, if any.
\<close>

definition saveModel :: "bool \<Rightarrow> MLPredictor \<Rightarrow> bool \<times> string option" where
  "saveModel can_open m =
     (if \<not> is_trained m then (False, None)
      else if \<not> can_open then (False, None)
      else (True, Some (model_type m @ endl @ show_double (bias m) @ endl
                        @ concat (map (\<lambda>weight. show_double weight @ endl) (weights m)))))"

text \<open>The loop of \<^verbatim>\<open>loadModel\<close> that reads the weights up to the end or a blank line.\<close>

function read_weights :: "string \<Rightarrow> real list \<Rightarrow> error + real list" where
  "read_weights s ws =
     (case getline s of
        None \<Rightarrow> Inr ws
      | Some (line, rest) \<Rightarrow>
          if line = [] then Inr ws
          else (case stod line of
                  Inl e \<Rightarrow> Inl e
                | Inr w \<Rightarrow> read_weights rest (ws @ [w])))"
  by pat_completeness auto
termination
proof (relation "measure (\<lambda>(s, ws). length s)")
  fix s :: string and ws :: "real list" and x2 x y line rest
  assume "getline s = Some x2" and "(line, rest) = x2"
  then have "s \<noteq> []" and "rest = drop 1 (dropWhile (\<lambda>c. c \<noteq> CHR 0x0A) s)"
    by (auto simp: getline_def split: if_splits)
  moreover have "length (dropWhile (\<lambda>c. c \<noteq> CHR 0x0A) s) \<le> length s"
    by (rule length_dropWhile_le)
  ultimately have "length rest < length s"
    by (cases s) auto
  then show "((rest, ws @ [y]), (s, ws)) \<in> measure (\<lambda>(s, ws). length s)"
    by simp
qed simp

text \<open>
  \<^verbatim>\<open>loadModel\<close>: \<open>file\<close> is the text of the file, or \<open>None\<close> when it cannot be opened.
  An exception thrown by \<^verbatim>\<open>std::stod\<close> leaves the function; the result is then the
  exception.
\<close>

definition loadModel :: "string option \<Rightarrow> MLPredictor \<Rightarrow> error + bool \<times> MLPredictor" where
  "loadModel file m =
     (case file of
        None \<Rightarrow> Inr (False, m)
      | Some s \<Rightarrow>
          (let (m1, s1) = (case getline s of
                             Some (line, rest) \<Rightarrow> (m\<lparr>model_type := line\<rparr>, rest)
                           | None \<Rightarrow> (m, s))
           in (case (case getline s1 of
                       Some (line, rest) \<Rightarrow>
                         (case stod line of
                            Inl e \<Rightarrow> Inl e
                          | Inr b \<Rightarrow> Inr (m1\<lparr>bias := b\<rparr>, rest))
                     | None \<Rightarrow> Inr (m1, s1)) of
                 Inl e \<Rightarrow> Inl e
               | Inr (m2, s2) \<Rightarrow>
                   (case read_weights s2 [] of
                      Inl e \<Rightarrow> Inl e
                    | Inr ws \<Rightarrow> Inr (True, m2\<lparr>weights := ws, is_trained := (ws \<noteq> [])\<rparr>)))))"

subsection \<open>Filtering (\<^verbatim>\<open>Property::matchesFilter\<close>, \<^verbatim>\<open>SearchEngine::search\<close>)\<close>

text \<open>
  The criteria are the entries of the \<^verbatim>\<open>std::map\<close> in iteration order. A key is one
  string, so once a branch of the \<^verbatim>\<open>else if\<close> chain has recognised the key and its test
  has not rejected the listing, no later branch applies and the loop goes on.
\<close>

fun matchesFilter :: "Property \<Rightarrow> (string \<times> string) list \<Rightarrow> error + bool" where
  "matchesFilter p [] = Inr True"
| "matchesFilter p ((key, val) # filters) =
     (if key = ''city'' then
        (if getCity p \<noteq> val then Inr False else matchesFilter p filters)
      else if key = ''min_price'' then
        (case stod val of Inl e \<Rightarrow> Inl e
         | Inr v \<Rightarrow> if getPrice p < v then Inr False else matchesFilter p filters)
      else if key = ''max_price'' then
        (case stod val of Inl e \<Rightarrow> Inl e
         | Inr v \<Rightarrow> if getPrice p > v then Inr False else matchesFilter p filters)
      else if key = ''bedrooms'' then
        (case stoi val of Inl e \<Rightarrow> Inl e
         | Inr v \<Rightarrow> if getBedrooms p \<noteq> v then Inr False else matchesFilter p filters)
      else if key = ''bathrooms'' then
        (case stoi val of Inl e \<Rightarrow> Inl e
         | Inr v \<Rightarrow> if getBathrooms p \<noteq> v then Inr False else matchesFilter p filters)
      else if key = ''type'' then
        (if getType p \<noteq> val then Inr False else matchesFilter p filters)
      else if key = ''min_size'' then
        (case stod val of Inl e \<Rightarrow> Inl e
         | Inr v \<Rightarrow> if getSize p < v then Inr False else matchesFilter p filters)
      else if key = ''max_size'' then
        (case stod val of Inl e \<Rightarrow> Inl e
         | Inr v \<Rightarrow> if getSize p > v then Inr False else matchesFilter p filters)
      else matchesFilter p filters)"

fun search :: "Property list \<Rightarrow> (string \<times> string) list \<Rightarrow> error + Property list" where
  "search [] filters = Inr []"
| "search (p # ps) filters =
     (case matchesFilter p filters of
        Inl e \<Rightarrow> Inl e
      | Inr b \<Rightarrow>
          (case search ps filters of
             Inl e \<Rightarrow> Inl e
           | Inr results \<Rightarrow> Inr (if b then p # results else results)))"

subsection \<open>Similarity ranking (\<^verbatim>\<open>calculateSimilarity\<close>, \<^verbatim>\<open>recommendSimilar\<close>)\<close>

definition calculateSimilarity :: "Property \<Rightarrow> Property \<Rightarrow> real" where
  "calculateSimilarity p1 p2 =
     (let s1 = (if getCity p1 = getCity p2 then 3 / 10 else 0);
          s2 = s1 + (if getType p1 = getType p2 then 2 / 10 else 0);
          bedroom_diff = \<bar>getBedrooms p1 - getBedrooms p2\<bar>;
          s3 = s2 + (if bedroom_diff = 0 then 2 / 10 else if bedroom_diff = 1 then 1 / 10 else 0);
          price_ratio = min (getPrice p1) (getPrice p2) / max (getPrice p1) (getPrice p2);
          s4 = s3 + (2 / 10) * price_ratio;
          size_ratio = min (getSize p1) (getSize p2) / max (getSize p1) (getSize p2)
      in s4 + (1 / 10) * size_ratio)"































subsection \<open>Price statistics (\<^verbatim>\<open>calculatePriceStatistics\<close>)\<close>

definition calculatePriceStatistics :: "Property list \<Rightarrow> (string \<rightharpoonup> real)" where
  "calculatePriceStatistics properties =
     (if properties = [] then Map.empty
      else
        let prices = sort (map getPrice properties);
            sum = fold (\<lambda>price s. s + price) prices 0;
            n = length prices;
            mean = sum / real n;
            stats = [''count'' \<mapsto> real n, ''mean'' \<mapsto> mean,
                     ''min'' \<mapsto> hd prices, ''max'' \<mapsto> last prices,
                     ''median'' \<mapsto> (if n mod 2 = 0
                                     then (prices ! (n div 2 - 1) + prices ! (n div 2)) / 2
                                     else prices ! (n div 2))];
            variance = fold (\<lambda>price v. v + (price - mean)\<^sup>2) prices 0
        in stats(''std_dev'' \<mapsto> sqrt (variance / real n)))"

subsection \<open>Reference notions the code is compared with\<close>

text \<open>
  The match rules of the filter, one criterion at a time: exact match for \<^verbatim>\<open>city\<close>,
  \<^verbatim>\<open>type\<close>, \<^verbatim>\<open>bedrooms\<close> and \<^verbatim>\<open>bathrooms\<close>, inclusive bounds for \<^verbatim>\<open>min_price\<close>,
  \<^verbatim>\<open>max_price\<close>, \<^verbatim>\<open>min_size\<close> and \<^verbatim>\<open>max_size\<close>; any other key is satisfied by every
  listing.
\<close>

definition satisfies_criterion :: "Property \<Rightarrow> string \<times> string \<Rightarrow> bool" where
  "satisfies_criterion p kv =
     (let key = fst kv; val = snd kv
      in if key = ''city'' then getCity p = val
         else if key = ''type'' then getType p = val
         else if key = ''bedrooms'' then stoi val = Inr (getBedrooms p)
         else if key = ''bathrooms'' then stoi val = Inr (getBathrooms p)
         else if key = ''min_price'' then (case stod val of Inr v \<Rightarrow> v \<le> getPrice p | Inl e \<Rightarrow> False)
         else if key = ''max_price'' then (case stod val of Inr v \<Rightarrow> getPrice p \<le> v | Inl e \<Rightarrow> False)
         else if key = ''min_size'' then (case stod val of Inr v \<Rightarrow> v \<le> getSize p | Inl e \<Rightarrow> False)
         else if key = ''max_size'' then (case stod val of Inr v \<Rightarrow> getSize p \<le> v | Inl e \<Rightarrow> False)
         else True)"

text \<open>A criterion is parseable when the conversion its key calls for does not throw.\<close>

definition parseable :: "string \<times> string \<Rightarrow> bool" where
  "parseable kv =
     (let key = fst kv; val = snd kv
      in if key = ''bedrooms'' \<or> key = ''bathrooms'' then \<not> isl (stoi val)
         else if key = ''min_price'' \<or> key = ''max_price'' \<or> key = ''min_size'' \<or> key = ''max_size''
         then \<not> isl (stod val)
         else True)"


text \<open>
  Rounding to six significant decimal digits, ties to even: \<open>x\<close> is scaled to lie between
  \<open>10\<^sup>5\<close> and \<open>10\<^sup>6\<close>, rounded to an integer and scaled back.
\<close>

definition round_sig6_pos :: "real \<Rightarrow> real" where
  "round_sig6_pos x =
     of_int (round_half_even (x * 10 powi (5 - dec_exponent x))) * 10 powi (dec_exponent x - 5)"

definition round_sig6 :: "real \<Rightarrow> real" where
  "round_sig6 x =
     (if x = 0 then 0 else if x < 0 then - round_sig6_pos (- x) else round_sig6_pos x)"

text \<open>A value has at most six significant decimal digits when scaling it so loses nothing.\<close>

definition six_digits :: "real \<Rightarrow> bool" where
  "six_digits x =
     (let y = \<bar>x\<bar> * 10 powi (5 - dec_exponent \<bar>x\<bar>) in of_int \<lfloor>y\<rfloor> = y)"

subsection \<open>Example data\<close>

definition listing_pune :: Property where
  "listing_pune =
     \<lparr>getId = 1, getCity = ''Pune'', getPrice = 5000000, getBedrooms = 2, getBathrooms = 2,
      getSize = 1000, getType = ''Apartment'', getLatitude = 18, getLongitude = 73,
      getAmenities = [''Gym''], getPredictedPrice = 0\<rparr>"

definition listing_goa :: Property where
  "listing_goa =
     \<lparr>getId = 2, getCity = ''Goa'', getPrice = 9000000, getBedrooms = 3, getBathrooms = 2,
      getSize = 1800, getType = ''Villa'', getLatitude = 15, getLongitude = 74,
      getAmenities = [], getPredictedPrice = 0\<rparr>"




text \<open>Four listings with the prices 100, 200, 300 and 400.\<close>

definition four_listings :: "Property list" where
  "four_listings = map (\<lambda>x. listing_pune\<lparr>getPrice := x\<rparr>) [100, 200, 300, 400]"

text \<open>A criteria map with recognised keys and one unrecognised key, in key order.\<close>

definition pune_criteria :: "(string \<times> string) list" where
  "pune_criteria =
     [(''bedrooms'', ''2''), (''city'', ''Pune''), (''max_price'', ''6000000''),
      (''min_size'', ''999.5''), (''view'', ''sea'')]"

text \<open>A model file with a bias line and a single weight line.\<close>

definition one_weight_file :: string where
  "one_weight_file = ''linear_regression'' @ endl @ ''5'' @ endl @ ''0'' @ endl"

text \<open>The model that reading \<open>one_weight_file\<close> into a new predictor produces.\<close>

definition one_weight_model :: MLPredictor where
  "one_weight_model = new_MLPredictor\<lparr>bias := 5, weights := [0], is_trained := True\<rparr>"

text \<open>A trained model whose bias has seven significant digits.\<close>

definition big_bias_model :: MLPredictor where
  "big_bias_model =
     new_MLPredictor\<lparr>bias := 1234567, weights := [1, 1, 1, 1, 1, 1, 1, 1, 1], is_trained := True\<rparr>"

text \<open>A trained model with nine weights and no normalization parameters.\<close>

definition nine_weight_model :: MLPredictor where
  "nine_weight_model =
     new_MLPredictor\<lparr>bias := 5, weights := [1, 1, 1, 1, 1, 1, 1, 1, 1], is_trained := True\<rparr>"

section \<open>Properties of the price model\<close>

subsection \<open>Auxiliary facts\<close>

lemma length_fold_list_update:
  "length (fold (\<lambda>i xs. xs[i := f i xs]) js xs) = length xs"
  by (induction js arbitrary: xs) auto

lemma encodeCategorical_known:
  "encoding v = Some c \<Longrightarrow> encodeCategorical v encoding = (c, encoding)"
  by (simp add: encodeCategorical_def)

lemma encodeCategorical_unknown:
  "encoding v = None \<Longrightarrow>
   encodeCategorical v encoding =
     (int (card (dom encoding)), encoding(v \<mapsto> int (card (dom encoding))))"
  by (simp add: encodeCategorical_def Let_def)

lemma dom_encodeCategorical:
  "dom (snd (encodeCategorical v encoding)) = insert v (dom encoding)"
  by (auto simp: encodeCategorical_def Let_def split: option.splits)

lemma encodeCategorical_present:
  "v \<in> dom encoding \<Longrightarrow> snd (encodeCategorical v encoding) = encoding"
  by (auto simp: encodeCategorical_def)

lemma length_extractFeatures: "length (fst (extractFeatures p m)) = 9"
  by (simp add: extractFeatures_def Let_def split: prod.splits)

lemma extractFeatures_fields:
  "weights (snd (extractFeatures p m)) = weights m"
  "bias (snd (extractFeatures p m)) = bias m"
  "is_trained (snd (extractFeatures p m)) = is_trained m"
  "feature_means (snd (extractFeatures p m)) = feature_means m"
  "feature_stds (snd (extractFeatures p m)) = feature_stds m"
  "model_type (snd (extractFeatures p m)) = model_type m"
  by (simp_all add: extractFeatures_def Let_def split: prod.splits)

lemma extractFeatures_encodings:
  "city_encoding (snd (extractFeatures p m)) =
     snd (encodeCategorical (getCity p) (city_encoding m))"
  "type_encoding (snd (extractFeatures p m)) =
     snd (encodeCategorical (getType p) (type_encoding m))"
  by (simp_all add: extractFeatures_def Let_def split: prod.splits)

lemma length_normalizeFeatureVector:
  "length (normalizeFeatureVector m features) = length features"
  by (simp add: normalizeFeatureVector_def length_fold_list_update)

lemma fold_add_sum:
  "fold (\<lambda>i (r::real). r + g i) [0..<n] a = a + (\<Sum>i<n. g i)"
  by (induction n) simp_all

lemma predict_affine:
  "length features = length (weights m) \<Longrightarrow>
   predict m features =
     max 0 (bias m + (\<Sum>i<length features. weights m ! i * features ! i))"
  by (simp add: predict_def fold_add_sum)

lemma predict_nonneg: "0 \<le> predict m features"
  by (simp add: predict_def)

lemma predictPrice_trained:
  "is_trained m \<Longrightarrow>
   predictPrice p m =
     (predict (snd (extractFeatures p m))
        (normalizeFeatureVector (snd (extractFeatures p m)) (fst (extractFeatures p m))),
      snd (extractFeatures p m))"
  by (simp add: predictPrice_def split: prod.splits)

text \<open>The encodings through a training run.\<close>

lemma initializeEncodings_city:
  "city_encoding (initializeEncodings data m) =
     fold (\<lambda>p e. snd (encodeCategorical (getCity p) e)) data Map.empty"
proof -
  have aux: "city_encoding (fold (\<lambda>p m'.
             let m1 = m'\<lparr>city_encoding := snd (encodeCategorical (getCity p) (city_encoding m'))\<rparr>
             in m1\<lparr>type_encoding := snd (encodeCategorical (getType p) (type_encoding m1))\<rparr>)
          data m0) =
        fold (\<lambda>p e. snd (encodeCategorical (getCity p) e)) data (city_encoding m0)" for m0
    by (induction data arbitrary: m0) (simp_all add: Let_def)
  show ?thesis unfolding initializeEncodings_def by (simp only: aux) simp
qed

lemma initializeEncodings_type:
  "type_encoding (initializeEncodings data m) =
     fold (\<lambda>p e. snd (encodeCategorical (getType p) e)) data Map.empty"
proof -
  have aux: "type_encoding (fold (\<lambda>p m'.
             let m1 = m'\<lparr>city_encoding := snd (encodeCategorical (getCity p) (city_encoding m'))\<rparr>
             in m1\<lparr>type_encoding := snd (encodeCategorical (getType p) (type_encoding m1))\<rparr>)
          data m0) =
        fold (\<lambda>p e. snd (encodeCategorical (getType p) e)) data (type_encoding m0)" for m0
    by (induction data arbitrary: m0) (simp_all add: Let_def)
  show ?thesis unfolding initializeEncodings_def by (simp only: aux) simp
qed

lemma dom_fold_encodeCategorical:
  "dom (fold (\<lambda>p e. snd (encodeCategorical (g p) e)) data e0) = dom e0 \<union> g ` set data"
  by (induction data arbitrary: e0) (auto simp: dom_encodeCategorical)

lemma extract_all_city:
  "getCity ` set ps \<subseteq> dom (city_encoding m) \<Longrightarrow>
   city_encoding (snd (extract_all ps m)) = city_encoding m"
proof (induction ps arbitrary: m)
  case Nil
  then show ?case by simp
next
  case (Cons p ps)
  have "city_encoding (snd (extractFeatures p m)) = city_encoding m"
    using Cons.prems by (simp add: extractFeatures_encodings encodeCategorical_present)
  with Cons show ?case
    by (simp add: split_beta Let_def)
qed

lemma extract_all_type:
  "getType ` set ps \<subseteq> dom (type_encoding m) \<Longrightarrow>
   type_encoding (snd (extract_all ps m)) = type_encoding m"
proof (induction ps arbitrary: m)
  case Nil
  then show ?case by simp
next
  case (Cons p ps)
  have "type_encoding (snd (extractFeatures p m)) = type_encoding m"
    using Cons.prems by (simp add: extractFeatures_encodings encodeCategorical_present)
  with Cons show ?case
    by (simp add: split_beta Let_def)
qed

lemma extract_all_fields:
  "feature_means (snd (extract_all ps m)) = feature_means m"
  "feature_stds (snd (extract_all ps m)) = feature_stds m"
  "model_type (snd (extract_all ps m)) = model_type m"
  "weights (snd (extract_all ps m)) = weights m"
  "bias (snd (extract_all ps m)) = bias m"
  by (induction ps arbitrary: m; simp add: split_beta Let_def extractFeatures_fields)+

lemma calculateNormalizationParams_encodings:
  "city_encoding (calculateNormalizationParams X m) = city_encoding m"
  "type_encoding (calculateNormalizationParams X m) = type_encoding m"
  by (simp_all add: calculateNormalizationParams_def Let_def)

lemma gradient_step_encodings:
  "city_encoding (gradient_step X y n m) = city_encoding m"
  "type_encoding (gradient_step X y n m) = type_encoding m"
  "feature_means (gradient_step X y n m) = feature_means m"
  "feature_stds (gradient_step X y n m) = feature_stds m"
  by (simp_all add: gradient_step_def Let_def split_beta)

lemma funpow_gradient_step_encodings:
  "city_encoding ((gradient_step X y n ^^ k) m) = city_encoding m"
  "type_encoding ((gradient_step X y n ^^ k) m) = type_encoding m"
  "feature_means ((gradient_step X y n ^^ k) m) = feature_means m"
  "feature_stds ((gradient_step X y n ^^ k) m) = feature_stds m"
  by (induction k; simp add: gradient_step_encodings)+

lemma trainLinearRegression_encodings:
  "city_encoding (trainLinearRegression X y m) = city_encoding m"
  "type_encoding (trainLinearRegression X y m) = type_encoding m"
  "feature_means (trainLinearRegression X y m) = feature_means m"
  "feature_stds (trainLinearRegression X y m) = feature_stds m"
  by (simp_all add: trainLinearRegression_def Let_def funpow_gradient_step_encodings)

lemma trainModel_city_encoding:
  "city_encoding (snd (trainModel ps m)) =
     (if ps = [] then city_encoding m
      else fold (\<lambda>p e. snd (encodeCategorical (getCity p) e)) ps Map.empty)"
proof -
  have "getCity ` set ps \<subseteq> dom (city_encoding (initializeEncodings ps m))"
    by (simp add: initializeEncodings_city dom_fold_encodeCategorical)
  then show ?thesis
    by (simp add: trainModel_def Let_def split_beta trainLinearRegression_encodings
        calculateNormalizationParams_encodings extract_all_city initializeEncodings_city)
qed

lemma trainModel_type_encoding:
  "type_encoding (snd (trainModel ps m)) =
     (if ps = [] then type_encoding m
      else fold (\<lambda>p e. snd (encodeCategorical (getType p) e)) ps Map.empty)"
proof -
  have "getType ` set ps \<subseteq> dom (type_encoding (initializeEncodings ps m))"
    by (simp add: initializeEncodings_type dom_fold_encodeCategorical)
  then show ?thesis
    by (simp add: trainModel_def Let_def split_beta trainLinearRegression_encodings
        calculateNormalizationParams_encodings extract_all_type initializeEncodings_type)
qed

lemma trainModel_is_trained:
  "ps \<noteq> [] \<Longrightarrow> is_trained (snd (trainModel ps m)) \<and> fst (trainModel ps m)"
  by (simp add: trainModel_def Let_def split_beta)

declare read_weights.simps [simp del]

lemma normalizeFeatureVector_cong:
  "feature_means m' = feature_means m \<Longrightarrow> feature_stds m' = feature_stds m \<Longrightarrow>
   normalizeFeatureVector m' f = normalizeFeatureVector m f"
  by (simp add: normalizeFeatureVector_def)

lemma predict_cong:
  "weights m' = weights m \<Longrightarrow> bias m' = bias m \<Longrightarrow> predict m' f = predict m f"
  by (simp add: predict_def)

lemma predictPrice_value:
  "is_trained m \<Longrightarrow>
   fst (predictPrice p m) = predict m (normalizeFeatureVector m (fst (extractFeatures p m)))"
  by (simp add: predictPrice_trained extractFeatures_fields
      normalizeFeatureVector_cong[of "snd (extractFeatures p m)" m]
      predict_cong[of "snd (extractFeatures p m)" m])

lemma predictPrice_mismatch:
  "is_trained m \<Longrightarrow> length (weights m) \<noteq> 9 \<Longrightarrow> fst (predictPrice p m) = 0"
  by (simp add: predictPrice_value predict_def length_normalizeFeatureVector
      length_extractFeatures)

lemma getline_line:
  "CHR 0x0A \<notin> set l \<Longrightarrow> getline (l @ endl @ rest) = Some (l, rest)"
proof -
  assume nl: "CHR 0x0A \<notin> set l"
  then have "takeWhile (\<lambda>c. c \<noteq> CHR 0x0A) (l @ CHR 0x0A # rest) = l"
    by (induction l) auto
  moreover from nl have "dropWhile (\<lambda>c. c \<noteq> CHR 0x0A) (l @ CHR 0x0A # rest) = CHR 0x0A # rest"
    by (induction l) auto
  ultimately show ?thesis
    by (simp add: getline_def endl_def)
qed

lemma read_weights_Nil: "read_weights [] ws = Inr ws"
  by (subst read_weights.simps) (simp add: getline_def)

lemma read_weights_line:
  "CHR 0x0A \<notin> set l \<Longrightarrow> l \<noteq> [] \<Longrightarrow> stod l = Inr w \<Longrightarrow>
   read_weights (l @ endl @ rest) ws = read_weights rest (ws @ [w])"
  by (subst read_weights.simps) (simp add: getline_line)

lemma stod_5: "stod ''5'' = Inr 5"
  by (simp add: stod_def parse_fraction_def parse_sign_def isspace_def isdigit_def digits_val_def digit_val_def parse_exponent_def Let_def)

lemma stod_0: "stod ''0'' = Inr 0"
  by (simp add: stod_def parse_fraction_def parse_sign_def isspace_def isdigit_def digits_val_def digit_val_def parse_exponent_def Let_def)

lemma loadModel_one_weight_file:
  "loadModel (Some one_weight_file) new_MLPredictor =
     Inr (True, one_weight_model)"
proof -
  have 1: "getline one_weight_file = Some (''linear_regression'', ''5'' @ endl @ ''0'' @ endl)"
    unfolding one_weight_file_def by (rule getline_line) simp
  have 2: "getline (''5'' @ endl @ ''0'' @ endl) = Some (''5'', ''0'' @ endl)"
    by (rule getline_line) simp
  have 3: "read_weights (''0'' @ endl) [] = Inr [0]"
    using read_weights_line[of "''0''" 0 "[]" "[]"] by (simp add: stod_0 read_weights_Nil)
  show ?thesis
    by (simp add: loadModel_def 1 2 3 stod_5 new_MLPredictor_def one_weight_model_def del: append.simps)
qed

subsection \<open>Training on no data\<close>

text \<open>
  C8. Calling \<^verbatim>\<open>trainModel\<close> on an empty listing collection returns the failure
  indicator and leaves the whole model (weights, bias, both encodings, normalization
  parameters, the trained flag and the type label) as it was.
\<close>

theorem trainModel_empty_fails_unchanged:
  "trainModel [] m = (False, m)"
  by (simp add: trainModel_def)

subsection \<open>Prediction\<close>

text \<open>
  C10. If the stored weight vector does not have the nine entries of a feature vector
  (as after loading a file with another number of weight lines), \<^verbatim>\<open>predictPrice\<close> returns
  0 for every listing although the model counts as trained. The result is the same number
  that an untrained model returns: the caller gets no separate failure signal.
\<close>

theorem predictPrice_dimension_mismatch_zero:
  assumes "is_trained m" and "length (weights m) \<noteq> 9"
  shows "fst (predictPrice p m) = 0 \<and>
         fst (predictPrice p m) = fst (predictPrice p (m\<lparr>is_trained := False\<rparr>))"
proof -
  have "fst (predictPrice p m) = 0"
    using assms by (rule predictPrice_mismatch)
  moreover have "fst (predictPrice p (m\<lparr>is_trained := False\<rparr>)) = 0"
    by (simp add: predictPrice_def)
  ultimately show ?thesis by simp
qed

theorem predictPrice_dimension_mismatch_zero_witness:
  "loadModel (Some one_weight_file) new_MLPredictor = Inr (True, one_weight_model) \<and>
   is_trained one_weight_model \<and> length (weights one_weight_model) \<noteq> 9 \<and>
   fst (predictPrice listing_pune one_weight_model) = 0 \<and>
   fst (predictPrice listing_pune one_weight_model) =
     fst (predictPrice listing_pune (one_weight_model\<lparr>is_trained := False\<rparr>))"
proof -
  have t: "is_trained one_weight_model" and l: "length (weights one_weight_model) \<noteq> 9"
    by (simp_all add: one_weight_model_def new_MLPredictor_def)
  show ?thesis
    using predictPrice_dimension_mismatch_zero[OF t l, of listing_pune] t l
      loadModel_one_weight_file
    by simp
qed

text \<open>
  C7 (as stated). The claim promises \<open>max(0, bias + \<Sum> weight\<^sub>i \<cdot> feature\<^sub>i)\<close> for every trained
  model. The model read from \<open>one_weight_file\<close> is trained, has bias 5 and the single
  weight 0, so the promised value is 5; \<^verbatim>\<open>predictPrice\<close> returns 0, because \<^verbatim>\<open>predict\<close>
  first compares the number of features with the number of weights.
\<close>

theorem predictPrice_trained_affine_counterexample:
  "loadModel (Some one_weight_file) new_MLPredictor = Inr (True, one_weight_model) \<and>
   is_trained one_weight_model \<and>
   fst (predictPrice listing_pune one_weight_model) = 0 \<and>
   max 0 (bias one_weight_model +
          (\<Sum>i<length (weights one_weight_model).
             weights one_weight_model ! i *
             normalizeFeatureVector one_weight_model
               (fst (extractFeatures listing_pune one_weight_model)) ! i)) = 5"
proof -
  have t: "is_trained one_weight_model" and l: "length (weights one_weight_model) \<noteq> 9"
    by (simp_all add: one_weight_model_def new_MLPredictor_def)
  have "fst (predictPrice listing_pune one_weight_model) = 0"
    using t l by (rule predictPrice_mismatch)
  moreover have "weights one_weight_model = [0]" "bias one_weight_model = 5"
    by (simp_all add: one_weight_model_def new_MLPredictor_def)
  ultimately show ?thesis
    using t loadModel_one_weight_file by simp
qed

text \<open>
  C7 (amended). \<^verbatim>\<open>predictPrice\<close> returns 0 when the model is untrained, and also when it
  is trained but its weight vector does not have nine entries. When the model is trained
  and has nine weights, the result is \<open>max(0, bias + \<Sum> weight\<^sub>i \<cdot> normalized_feature\<^sub>i)\<close> over
  the nine normalized features. The result is never negative.
\<close>

theorem predictPrice_clamped_affine:
  "fst (predictPrice p m) =
     (if is_trained m \<and> length (weights m) = 9
      then max 0 (bias m +
             (\<Sum>i<9. weights m ! i *
                normalizeFeatureVector m (fst (extractFeatures p m)) ! i))
      else 0)
   \<and> 0 \<le> fst (predictPrice p m)"
proof (cases "is_trained m")
  case False
  then show ?thesis by (simp add: predictPrice_def)
next
  case True
  show ?thesis
  proof (cases "length (weights m) = 9")
    case False
    with True show ?thesis by (simp add: predictPrice_mismatch)
  next
    case nine: True
    have "length (normalizeFeatureVector m (fst (extractFeatures p m))) = length (weights m)"
      using nine by (simp add: length_normalizeFeatureVector length_extractFeatures)
    from predict_affine[OF this] True nine show ?thesis
      by (simp add: predictPrice_value length_normalizeFeatureVector length_extractFeatures)
  qed
qed

theorem predictPrice_clamped_affine_witness:
  "is_trained nine_weight_model \<and> length (weights nine_weight_model) = 9 \<and>
   fst (predictPrice listing_pune nine_weight_model) = 1601"
proof -
  have f: "fst (extractFeatures listing_pune nine_weight_model) =
             [0, 0, 2, 2, 1000, 18, 73, 500, 1]"
    by (simp add: extractFeatures_def encodeCategorical_def nine_weight_model_def
        new_MLPredictor_def listing_pune_def Let_def)
  have n: "normalizeFeatureVector nine_weight_model xs = xs" for xs
    by (simp add: normalizeFeatureVector_def nine_weight_model_def new_MLPredictor_def)
  have w: "weights nine_weight_model = [1, 1, 1, 1, 1, 1, 1, 1, 1]"
    "bias nine_weight_model = 5" "is_trained nine_weight_model"
    by (simp_all add: nine_weight_model_def new_MLPredictor_def)
  have s: "{..<9::nat} = {0, 1, 2, 3, 4, 5, 6, 7, 8}" by auto
  show ?thesis
    using predictPrice_clamped_affine[of listing_pune nine_weight_model]
    by (simp add: f n w s)
qed

subsection \<open>Category encodings at prediction time\<close>

text \<open>
  C1 (as stated). The claim says that a prediction leaves the encodings as training built
  them. After training on the single listing \<open>listing_pune\<close>, the city table has no entry
  for Goa; predicting the price of \<open>listing_goa\<close> inserts Goa with code 1, and likewise the
  type Villa: \<^verbatim>\<open>extractFeatures\<close> calls \<^verbatim>\<open>encodeCategorical\<close>, which inserts every value it
  does not find.
\<close>

theorem predictPrice_encoding_frozen_counterexample:
  "getCity listing_goa \<notin> getCity ` set [listing_pune] \<and>
   city_encoding (snd (trainModel [listing_pune] new_MLPredictor)) ''Goa'' = None \<and>
   city_encoding (snd (predictPrice listing_goa
      (snd (trainModel [listing_pune] new_MLPredictor)))) ''Goa'' = Some 1 \<and>
   type_encoding (snd (trainModel [listing_pune] new_MLPredictor)) ''Villa'' = None \<and>
   type_encoding (snd (predictPrice listing_goa
      (snd (trainModel [listing_pune] new_MLPredictor)))) ''Villa'' = Some 1"
proof -
  let ?m1 = "snd (trainModel [listing_pune] new_MLPredictor)"
  have c: "city_encoding ?m1 = [''Pune'' \<mapsto> 0]"
    by (simp add: trainModel_city_encoding encodeCategorical_def listing_pune_def)
  have t: "type_encoding ?m1 = [''Apartment'' \<mapsto> 0]"
    by (simp add: trainModel_type_encoding encodeCategorical_def listing_pune_def)
  have tr: "is_trained ?m1"
    by (simp add: trainModel_is_trained)
  have "city_encoding (snd (predictPrice listing_goa ?m1)) ''Goa'' = Some 1"
    by (simp add: predictPrice_trained[OF tr] extractFeatures_encodings c
        encodeCategorical_def listing_goa_def)
  moreover have "type_encoding (snd (predictPrice listing_goa ?m1)) ''Villa'' = Some 1"
    by (simp add: predictPrice_trained[OF tr] extractFeatures_encodings t
        encodeCategorical_def listing_goa_def)
  moreover have "city_encoding ?m1 ''Goa'' = None" "type_encoding ?m1 ''Villa'' = None"
    by (simp_all add: c t)
  moreover have "getCity listing_goa \<notin> getCity ` set [listing_pune]"
    by (simp add: listing_goa_def listing_pune_def)
  ultimately show ?thesis
    by blast
qed

text \<open>
  C1 (amended). For every model trained on a non-empty listing set, a prediction keeps
  the code of every city and type that occurred in the training set, and adds a city or
  type that did not occur to its table, with the number of distinct training cities
  (types) as its code.
\<close>

theorem predictPrice_grows_encodings:
  assumes "ps \<noteq> []"
  shows "city_encoding (snd (predictPrice p (snd (trainModel ps m)))) =
           (if getCity p \<in> getCity ` set ps then city_encoding (snd (trainModel ps m))
            else (city_encoding (snd (trainModel ps m)))
                   (getCity p \<mapsto> int (card (getCity ` set ps))))
         \<and>
         type_encoding (snd (predictPrice p (snd (trainModel ps m)))) =
           (if getType p \<in> getType ` set ps then type_encoding (snd (trainModel ps m))
            else (type_encoding (snd (trainModel ps m)))
                   (getType p \<mapsto> int (card (getType ` set ps))))"
proof -
  let ?m1 = "snd (trainModel ps m)"
  have tr: "is_trained ?m1"
    using assms by (simp add: trainModel_is_trained)
  have dc: "dom (city_encoding ?m1) = getCity ` set ps"
    using assms by (simp add: trainModel_city_encoding dom_fold_encodeCategorical)
  have dt: "dom (type_encoding ?m1) = getType ` set ps"
    using assms by (simp add: trainModel_type_encoding dom_fold_encodeCategorical)
  have "snd (encodeCategorical v e) =
          (if v \<in> dom e then e else e(v \<mapsto> int (card (dom e))))" for v e
    by (auto simp: encodeCategorical_def Let_def split: option.splits)
  then show ?thesis
    by (simp add: predictPrice_trained[OF tr] extractFeatures_encodings dc dt)
qed

theorem predictPrice_grows_encodings_witness:
  "[listing_pune] \<noteq> [] \<and>
   city_encoding (snd (predictPrice listing_goa
      (snd (trainModel [listing_pune] new_MLPredictor)))) =
     (city_encoding (snd (trainModel [listing_pune] new_MLPredictor)))(''Goa'' \<mapsto> 1) \<and>
   type_encoding (snd (predictPrice listing_goa
      (snd (trainModel [listing_pune] new_MLPredictor)))) =
     (type_encoding (snd (trainModel [listing_pune] new_MLPredictor)))(''Villa'' \<mapsto> 1)"
  using predictPrice_grows_encodings[of "[listing_pune]" listing_goa new_MLPredictor]
  by (simp add: listing_goa_def listing_pune_def)


section \<open>Properties of the search engine\<close>

subsection \<open>Similarity of a listing with itself\<close>

text \<open>
  C4 (as stated). The claim gives 1.5 as the score of a listing compared with itself. The
  five contributions are 0.3, 0.2, 0.2, 0.2 and 0.1, and they add up to 1: for
  \<open>listing_pune\<close>, whose price and size are positive, the score is 1 and not 1.5.
\<close>

theorem calculateSimilarity_self_counterexample:
  "0 < getPrice listing_pune \<and> 0 < getSize listing_pune \<and>
   calculateSimilarity listing_pune listing_pune = 1 \<and>
   calculateSimilarity listing_pune listing_pune \<noteq> 3 / 2"
  by (simp add: calculateSimilarity_def listing_pune_def)

text \<open>
  C4 (amended). For every listing with positive price and positive size, the similarity
  score of that listing compared with itself equals 1 (0.3 + 0.2 + 0.2 + 0.2 + 0.1).
\<close>

theorem calculateSimilarity_self:
  assumes "0 < getPrice p" and "0 < getSize p"
  shows "calculateSimilarity p p = 1"
  using assms by (simp add: calculateSimilarity_def)

theorem calculateSimilarity_self_witness:
  "0 < getPrice listing_pune \<and> 0 < getSize listing_pune \<and>
   calculateSimilarity listing_pune listing_pune = 1"
proof -
  have p: "0 < getPrice listing_pune" and s: "0 < getSize listing_pune"
    by (simp_all add: listing_pune_def)
  from calculateSimilarity_self[OF p s] p s show ?thesis by simp
qed

subsection \<open>Filtering\<close>

lemma nine_cases:
  assumes "A1 \<Longrightarrow> T" "A2 \<Longrightarrow> T" "A3 \<Longrightarrow> T" "A4 \<Longrightarrow> T" "A5 \<Longrightarrow> T" "A6 \<Longrightarrow> T" "A7 \<Longrightarrow> T" "A8 \<Longrightarrow> T"
    and "\<not> A1 \<Longrightarrow> \<not> A2 \<Longrightarrow> \<not> A3 \<Longrightarrow> \<not> A4 \<Longrightarrow> \<not> A5 \<Longrightarrow> \<not> A6 \<Longrightarrow> \<not> A7 \<Longrightarrow> \<not> A8 \<Longrightarrow> T"
  shows T
  using assms by blast

lemma matchesFilter_step:
  assumes "parseable (key, val)"
  shows "matchesFilter p ((key, val) # filters) =
           (if satisfies_criterion p (key, val) then matchesFilter p filters else Inr False)"
    (is ?goal)
proof -
  have 1: "key = ''city'' \<Longrightarrow> ?goal"
    by (simp add: satisfies_criterion_def)
  have 2: "key = ''type'' \<Longrightarrow> ?goal"
    by (simp add: satisfies_criterion_def)
  have 3: "key = ''bedrooms'' \<Longrightarrow> ?goal"
    using assms by (cases "stoi val") (auto simp: satisfies_criterion_def parseable_def)
  have 4: "key = ''bathrooms'' \<Longrightarrow> ?goal"
    using assms by (cases "stoi val") (auto simp: satisfies_criterion_def parseable_def)
  have 5: "key = ''min_price'' \<Longrightarrow> ?goal"
    using assms by (cases "stod val") (auto simp: satisfies_criterion_def parseable_def)
  have 6: "key = ''max_price'' \<Longrightarrow> ?goal"
    using assms by (cases "stod val") (auto simp: satisfies_criterion_def parseable_def)
  have 7: "key = ''min_size'' \<Longrightarrow> ?goal"
    using assms by (cases "stod val") (auto simp: satisfies_criterion_def parseable_def)
  have 8: "key = ''max_size'' \<Longrightarrow> ?goal"
    using assms by (cases "stod val") (auto simp: satisfies_criterion_def parseable_def)
  have 9: "key \<noteq> ''city'' \<Longrightarrow> key \<noteq> ''type'' \<Longrightarrow> key \<noteq> ''bedrooms'' \<Longrightarrow> key \<noteq> ''bathrooms'' \<Longrightarrow>
           key \<noteq> ''min_price'' \<Longrightarrow> key \<noteq> ''max_price'' \<Longrightarrow> key \<noteq> ''min_size'' \<Longrightarrow>
           key \<noteq> ''max_size'' \<Longrightarrow> ?goal"
    by (simp add: satisfies_criterion_def)
  show ?thesis
    by (rule nine_cases[OF 1 2 3 4 5 6 7 8 9])
qed

lemma matchesFilter_correct:
  "\<forall>kv\<in>set filters. parseable kv \<Longrightarrow>
   matchesFilter p filters = Inr (\<forall>kv\<in>set filters. satisfies_criterion p kv)"
proof (induction filters)
  case Nil
  then show ?case by simp
next
  case (Cons kv filters)
  obtain key val where kv: "kv = (key, val)" by (cases kv)
  from Cons.prems have p: "parseable (key, val)" and rest: "\<forall>kv\<in>set filters. parseable kv"
    by (simp_all add: kv)
  show ?case
    unfolding kv matchesFilter_step[OF p] Cons.IH[OF rest] by simp
qed

lemma search_Nil_filters: "search ps [] = Inr ps"
  by (induction ps) simp_all

text \<open>
  C5. For every listing \<open>L\<close> and criteria \<open>C\<close> whose numeric values parse,
  \<^verbatim>\<open>search\<close> on the one-element collection returns \<open>[L]\<close> if and only if \<open>L\<close> satisfies
  every entry of \<open>C\<close> (and returns the empty collection otherwise); unrecognised keys are
  satisfied by every listing. With empty criteria every collection is returned unchanged.
\<close>

theorem search_single_iff:
  "((\<forall>kv\<in>set C. parseable kv) \<longrightarrow>
      ((search [L] C = Inr [L]) = (\<forall>kv\<in>set C. satisfies_criterion L kv)) \<and>
      search [L] C = Inr (if \<forall>kv\<in>set C. satisfies_criterion L kv then [L] else []))
   \<and> search ps [] = Inr ps"
  by (simp add: matchesFilter_correct search_Nil_filters)

lemma pune_criteria_values:
  "stoi ''2'' = Inr 2" "stod ''6000000'' = Inr 6000000" "stod ''999.5'' = Inr (1999 / 2)"
  by (simp_all add: stoi_def stod_def parse_fraction_def parse_sign_def isspace_def isdigit_def digits_val_def
      digit_val_def parse_exponent_def Let_def)

theorem search_single_iff_witness:
  "list_all parseable pune_criteria \<and>
   list_all (satisfies_criterion listing_pune) pune_criteria \<and>
   search [listing_pune] pune_criteria = Inr [listing_pune] \<and>
   \<not> list_all (satisfies_criterion listing_goa) pune_criteria \<and>
   search [listing_goa] pune_criteria = Inr []"
proof -
  have p: "\<forall>kv\<in>set pune_criteria. parseable kv"
    by (simp add: pune_criteria_def parseable_def pune_criteria_values)
  have s: "\<forall>kv\<in>set pune_criteria. satisfies_criterion listing_pune kv"
    by (simp add: pune_criteria_def satisfies_criterion_def pune_criteria_values listing_pune_def)
  have n: "\<not> (\<forall>kv\<in>set pune_criteria. satisfies_criterion listing_goa kv)"
    by (simp add: pune_criteria_def satisfies_criterion_def pune_criteria_values listing_goa_def)
  from search_single_iff[of pune_criteria listing_pune "[]"]
    search_single_iff[of pune_criteria listing_goa "[]"] p s n
  show ?thesis by (simp add: list_all_iff)
qed


subsection \<open>Price statistics\<close>

lemma sorted_hd_Min: "sorted ys \<Longrightarrow> ys \<noteq> [] \<Longrightarrow> hd ys = Min (set (ys::real list))"
  by (cases ys) (auto intro!: Min_eqI[symmetric])

lemma sorted_last_Max: "sorted ys \<Longrightarrow> ys \<noteq> [] \<Longrightarrow> last ys = Max (set (ys::real list))"
proof (induction ys)
  case Nil
  then show ?case by simp
next
  case (Cons y ys)
  show ?case
  proof (cases "ys = []")
    case True
    then show ?thesis by simp
  next
    case False
    with Cons have "last ys = Max (set ys)" by simp
    moreover have "y \<le> Max (set ys)"
    proof -
      have "hd ys \<in> set ys" using False by simp
      then have "y \<le> hd ys" using Cons.prems by auto
      also have "hd ys \<le> Max (set ys)" using \<open>hd ys \<in> set ys\<close> by simp
      finally show ?thesis .
    qed
    ultimately show ?thesis
      using False by (simp add: max_def)
  qed
qed

lemma sum_list_map_sort:
  "sum_list (map f (sort xs)) = sum_list (map (f::real \<Rightarrow> real) xs)"
proof -
  have "sum_list (map f ys) = sum_mset (image_mset f (mset ys))" for ys :: "real list"
    by (metis mset_map sum_mset_sum_list)
  then show ?thesis by simp
qed

lemma fold_plus_sum_list:
  "fold (\<lambda>x (s::real). s + g x) xs a = a + sum_list (map g xs)"
  by (induction xs arbitrary: a) simp_all

lemma calculatePriceStatistics_nonempty:
  assumes "ps \<noteq> []"
  shows "calculatePriceStatistics ps =
     (let prices = map getPrice ps; n = length ps; mean = sum_list prices / real n;
          ranked = sort prices
      in [''count'' \<mapsto> real n, ''mean'' \<mapsto> mean,
          ''min'' \<mapsto> Min (set prices), ''max'' \<mapsto> Max (set prices),
          ''median'' \<mapsto> (if even n then (ranked ! (n div 2 - 1) + ranked ! (n div 2)) / 2
                          else ranked ! (n div 2)),
          ''std_dev'' \<mapsto> sqrt ((\<Sum>x\<leftarrow>prices. (x - mean)\<^sup>2) / real n)])"
proof -
  let ?prices = "map getPrice ps"
  have ne: "sort ?prices \<noteq> []"
    using assms by (metis length_sort length_map length_0_conv)
  have 1: "fold (\<lambda>price s. s + price) (sort ?prices) 0 = sum_list ?prices"
    using fold_plus_sum_list[of "\<lambda>x. x" "sort ?prices" 0] sum_list_map_sort[of "\<lambda>x. x" ?prices]
    by simp
  have 2: "fold (\<lambda>price v. v + (price - c)\<^sup>2) (sort ?prices) 0 = (\<Sum>x\<leftarrow>?prices. (x - c)\<^sup>2)" for c
    using fold_plus_sum_list[of "\<lambda>x. (x - c)\<^sup>2" "sort ?prices" 0]
      sum_list_map_sort[of "\<lambda>x. (x - c)\<^sup>2" ?prices]
    by simp
  have 3: "hd (sort ?prices) = Min (set ?prices)"
    using sorted_hd_Min[OF sorted_sort ne] by simp
  have 4: "last (sort ?prices) = Max (set ?prices)"
    using sorted_last_Max[OF sorted_sort ne] by simp
  show ?thesis
    using assms by (simp add: calculatePriceStatistics_def Let_def 1 2 3 4 even_iff_mod_2_eq_zero)
qed

lemma calculatePriceStatistics_example:
  assumes "map getPrice qs = [100, 200, 300, 400]"
  shows "calculatePriceStatistics qs ''mean'' = Some 250"
    and "calculatePriceStatistics qs ''median'' = Some 250"
    and "calculatePriceStatistics qs ''min'' = Some 100"
    and "calculatePriceStatistics qs ''max'' = Some 400"
    and "calculatePriceStatistics qs ''count'' = Some 4"
proof -
  from assms have ne: "qs \<noteq> []" by auto
  have n: "length qs = 4"
    using arg_cong[OF assms, of length] by simp
  show "calculatePriceStatistics qs ''mean'' = Some 250"
    "calculatePriceStatistics qs ''median'' = Some 250"
    "calculatePriceStatistics qs ''min'' = Some 100"
    "calculatePriceStatistics qs ''max'' = Some 400"
    "calculatePriceStatistics qs ''count'' = Some 4"
    by (simp_all add: calculatePriceStatistics_nonempty[OF ne] Let_def assms n)
qed

text \<open>
  C6. For the empty collection \<^verbatim>\<open>calculatePriceStatistics\<close> returns the empty map. For a
  non-empty collection it returns exactly the six entries count, mean, min, max, median
  (of the sorted price list; the average of the two middle values when the count is even)
  and std_dev (the population standard deviation, dividing by N). On the prices
  100, 200, 300, 400 it yields mean 250, median 250, min 100, max 400 and count 4.
\<close>

theorem calculatePriceStatistics_correct:
  "calculatePriceStatistics [] = Map.empty \<and>
   (ps \<noteq> [] \<longrightarrow>
      calculatePriceStatistics ps =
        (let prices = map getPrice ps; n = length ps; mean = sum_list prices / real n;
             ranked = sort prices
         in [''count'' \<mapsto> real n, ''mean'' \<mapsto> mean,
             ''min'' \<mapsto> Min (set prices), ''max'' \<mapsto> Max (set prices),
             ''median'' \<mapsto> (if even n then (ranked ! (n div 2 - 1) + ranked ! (n div 2)) / 2
                             else ranked ! (n div 2)),
             ''std_dev'' \<mapsto> sqrt ((\<Sum>x\<leftarrow>prices. (x - mean)\<^sup>2) / real n)])) \<and>
   (map getPrice qs = [100, 200, 300, 400] \<longrightarrow>
      calculatePriceStatistics qs ''mean'' = Some 250 \<and>
      calculatePriceStatistics qs ''median'' = Some 250 \<and>
      calculatePriceStatistics qs ''min'' = Some 100 \<and>
      calculatePriceStatistics qs ''max'' = Some 400 \<and>
      calculatePriceStatistics qs ''count'' = Some 4)"
proof (intro conjI impI)
  show "calculatePriceStatistics [] = Map.empty"
    by (simp add: calculatePriceStatistics_def)
qed (fact calculatePriceStatistics_nonempty calculatePriceStatistics_example)+

theorem calculatePriceStatistics_correct_witness:
  "four_listings \<noteq> [] \<and> map getPrice four_listings = [100, 200, 300, 400] \<and>
   calculatePriceStatistics four_listings =
     [''count'' \<mapsto> 4, ''mean'' \<mapsto> 250, ''min'' \<mapsto> 100, ''max'' \<mapsto> 400, ''median'' \<mapsto> 250,
      ''std_dev'' \<mapsto> sqrt 12500]"
proof -
  have p: "map getPrice four_listings = [100, 200, 300, 400]"
    by (simp add: four_listings_def)
  have ne: "four_listings \<noteq> []"
    by (simp add: four_listings_def)
  have n: "length four_listings = 4"
    by (simp add: four_listings_def)
  from calculatePriceStatistics_correct[of four_listings four_listings] ne p
  have "calculatePriceStatistics four_listings =
        (let prices = map getPrice four_listings; n = length four_listings;
             mean = sum_list prices / real n; ranked = sort prices
         in [''count'' \<mapsto> real n, ''mean'' \<mapsto> mean,
             ''min'' \<mapsto> Min (set prices), ''max'' \<mapsto> Max (set prices),
             ''median'' \<mapsto> (if even n then (ranked ! (n div 2 - 1) + ranked ! (n div 2)) / 2
                             else ranked ! (n div 2)),
             ''std_dev'' \<mapsto> sqrt ((\<Sum>x\<leftarrow>prices. (x - mean)\<^sup>2) / real n)])"
    by blast
  then show ?thesis
    using ne by (simp add: p n Let_def)
qed


subsection \<open>Sorting\<close>































subsection \<open>Similarity ranking\<close>
















subsection \<open>Normalization parameters\<close>

lemma upt_0_9: "[0..<9] = [0, 1, 2, 3, 4, 5, 6, 7, 8]"
  by (simp add: upt_rec)

lemma fold_update_upt:
  "n \<le> length ms \<Longrightarrow>
   fold (\<lambda>i ms. ms[i := g i (ms ! i)]) [0..<n] ms = map (\<lambda>i. g i (ms ! i)) [0..<n] @ drop n ms"
proof (induction n)
  case 0
  then show ?case by simp
next
  case (Suc n)
  then have n: "n < length ms" by simp
  have d: "drop n ms = ms ! n # drop (Suc n) ms"
    using n by (simp add: Cons_nth_drop_Suc)
  have "fold (\<lambda>i ms. ms[i := g i (ms ! i)]) [0..<Suc n] ms =
        (map (\<lambda>i. g i (ms ! i)) [0..<n] @ drop n ms)[n := g n ((map (\<lambda>i. g i (ms ! i)) [0..<n] @ drop n ms) ! n)]"
    using Suc by simp
  also have "\<dots> = map (\<lambda>i. g i (ms ! i)) [0..<n] @ (g n (ms ! n) # drop (Suc n) ms)"
    by (simp add: list_update_append nth_append d)
  finally show ?case by simp
qed

lemma fold_update_all:
  "length ms = n \<Longrightarrow>
   fold (\<lambda>i ms. ms[i := g i (ms ! i)]) [0..<n] ms = map (\<lambda>i. g i (ms ! i)) [0..<n]"
  using fold_update_upt[of n ms g] by simp

lemma fold_rows_accumulate:
  "length ms = n \<Longrightarrow>
   fold (\<lambda>row ms. fold (\<lambda>i ms. ms[i := ms ! i + h row i]) [0..<n] ms) X ms =
     map (\<lambda>i. ms ! i + (\<Sum>row\<leftarrow>X. h row i)) [0..<n]"
proof (induction X arbitrary: ms)
  case Nil
  then show ?case using map_nth[of ms] by simp
next
  case (Cons row X)
  let ?ms' = "map (\<lambda>i. ms ! i + h row i) [0..<n]"
  have "fold (\<lambda>i ms. ms[i := ms ! i + h row i]) [0..<n] ms = ?ms'"
    using fold_update_all[OF Cons.prems, of "\<lambda>i v. v + h row i"] by simp
  moreover have "length ?ms' = n" by simp
  ultimately have "fold (\<lambda>row ms. fold (\<lambda>i ms. ms[i := ms ! i + h row i]) [0..<n] ms) (row # X) ms =
                   map (\<lambda>i. ?ms' ! i + (\<Sum>row\<leftarrow>X. h row i)) [0..<n]"
    using Cons.IH[of ?ms'] by simp
  also have "\<dots> = map (\<lambda>i. ms ! i + (\<Sum>row\<leftarrow>row # X. h row i)) [0..<n]"
    by (rule map_cong) (simp_all add: add.assoc)
  finally show ?case .
qed

lemma length_resize: "length (resize xs n v) = n"
  by (simp add: resize_def)

text \<open>What the four loops compute, for any earlier content of the two vectors.\<close>

lemma calculateNormalizationParams_formula:
  assumes "X \<noteq> []"
  defines "n \<equiv> length (X ! 0)" and "N \<equiv> real (length X)"
  defines "mean \<equiv> \<lambda>m i. (resize (feature_means m) n 0 ! i + (\<Sum>row\<leftarrow>X. row ! i)) / N"
  shows "feature_means (calculateNormalizationParams X m) = map (mean m) [0..<n]"
    and "feature_stds (calculateNormalizationParams X m) =
           map (\<lambda>i. let s = sqrt ((resize (feature_stds m) n 0 ! i
                                     + (\<Sum>row\<leftarrow>X. (row ! i - mean m i)\<^sup>2)) / N)
                    in if s = 0 then 1 else s) [0..<n]"
proof -
  let ?means1 = "fold (\<lambda>row ms. fold (\<lambda>i ms. ms[i := ms ! i + row ! i]) [0..<n] ms) X
                   (resize (feature_means m) n 0)"
  let ?means2 = "fold (\<lambda>i ms. ms[i := ms ! i / N]) [0..<n] ?means1"
  have m1: "?means1 = map (\<lambda>i. resize (feature_means m) n 0 ! i + (\<Sum>row\<leftarrow>X. row ! i)) [0..<n]"
    by (rule fold_rows_accumulate) (rule length_resize)
  have m2: "?means2 = map (mean m) [0..<n]"
  proof -
    have "length ?means1 = n" by (simp add: m1)
    from fold_update_all[OF this, of "\<lambda>i v. v / N"]
    have "?means2 = map (\<lambda>i. ?means1 ! i / N) [0..<n]" .
    also have "\<dots> = map (mean m) [0..<n]"
      by (rule map_cong) (simp_all add: m1 mean_def)
    finally show ?thesis .
  qed
  define M2 where "M2 = ?means2"
  have M2: "M2 ! i = mean m i" if "i < n" for i
    using that by (simp add: M2_def m2)
  let ?stds1 = "fold (\<lambda>row ss. fold (\<lambda>i ss. ss[i := ss ! i + (row ! i - M2 ! i)\<^sup>2]) [0..<n] ss)
                  X (resize (feature_stds m) n 0)"
  let ?stds2 = "fold (\<lambda>i ss. let s = sqrt (ss ! i / N) in ss[i := (if s = 0 then 1 else s)])
                  [0..<n] ?stds1"
  have s1: "?stds1 = map (\<lambda>i. resize (feature_stds m) n 0 ! i
                              + (\<Sum>row\<leftarrow>X. (row ! i - M2 ! i)\<^sup>2)) [0..<n]"
    by (rule fold_rows_accumulate) (rule length_resize)
  have s2: "?stds2 = map (\<lambda>i. let s = sqrt ((resize (feature_stds m) n 0 ! i
                                     + (\<Sum>row\<leftarrow>X. (row ! i - mean m i)\<^sup>2)) / N)
                    in if s = 0 then 1 else s) [0..<n]"
  proof -
    have "length ?stds1 = n" by (simp add: s1)
    from fold_update_all[OF this, of "\<lambda>i v. let s = sqrt (v / N) in (if s = 0 then 1 else s)"]
    have "?stds2 = map (\<lambda>i. let s = sqrt (?stds1 ! i / N) in if s = 0 then 1 else s) [0..<n]"
      by (simp add: Let_def)
    also have "\<dots> = map (\<lambda>i. let s = sqrt ((resize (feature_stds m) n 0 ! i
                                     + (\<Sum>row\<leftarrow>X. (row ! i - mean m i)\<^sup>2)) / N)
                    in if s = 0 then 1 else s) [0..<n]"
      by (rule map_cong) (simp_all add: s1 M2)
    finally show ?thesis .
  qed
  show "feature_means (calculateNormalizationParams X m) = map (mean m) [0..<n]"
    using assms(1) m2 by (simp add: calculateNormalizationParams_def Let_def n_def N_def)
  have "feature_stds (calculateNormalizationParams X m) = ?stds2"
    using assms(1) by (simp add: calculateNormalizationParams_def Let_def n_def N_def M2_def)
  then show "feature_stds (calculateNormalizationParams X m) =
           map (\<lambda>i. let s = sqrt ((resize (feature_stds m) n 0 ! i
                                     + (\<Sum>row\<leftarrow>X. (row ! i - mean m i)\<^sup>2)) / N)
                    in if s = 0 then 1 else s) [0..<n]"
    by (simp only: s2)
qed

text \<open>
  On a model whose two vectors are still empty (the first training), the loops compute
  the column means and the population standard deviations, with 0 replaced by 1.
\<close>

lemma calculateNormalizationParams_fresh:
  assumes "X \<noteq> []" and "feature_means m = []" and "feature_stds m = []"
  shows "feature_means (calculateNormalizationParams X m) =
           map (\<lambda>i. (\<Sum>row\<leftarrow>X. row ! i) / real (length X)) [0..<length (X ! 0)]"
    and "feature_stds (calculateNormalizationParams X m) =
           map (\<lambda>i. let s = sqrt ((\<Sum>row\<leftarrow>X. (row ! i - (\<Sum>row\<leftarrow>X. row ! i) / real (length X))\<^sup>2)
                                   / real (length X))
                    in if s = 0 then 1 else s) [0..<length (X ! 0)]"
proof -
  have z: "resize [] (length (X ! 0)) (0::real) ! i = 0" if "i < length (X ! 0)" for i
    using that by (simp add: resize_def)
  show "feature_means (calculateNormalizationParams X m) =
           map (\<lambda>i. (\<Sum>row\<leftarrow>X. row ! i) / real (length X)) [0..<length (X ! 0)]"
    unfolding calculateNormalizationParams_formula(1)[OF assms(1)] assms(2)
    by (rule map_cong) (simp_all add: z)
  show "feature_stds (calculateNormalizationParams X m) =
           map (\<lambda>i. let s = sqrt ((\<Sum>row\<leftarrow>X. (row ! i - (\<Sum>row\<leftarrow>X. row ! i) / real (length X))\<^sup>2)
                                   / real (length X))
                    in if s = 0 then 1 else s) [0..<length (X ! 0)]"
    unfolding calculateNormalizationParams_formula(2)[OF assms(1)] assms(2) assms(3)
    by (rule map_cong) (simp_all add: z)
qed

text \<open>
  \<^verbatim>\<open>normalizeFeatureVector\<close> rescales the entries below the shorter of the two lengths and
  leaves the others as they are; the length of the input is kept.
\<close>

lemma normalizeFeatureVector_eq:
  "normalizeFeatureVector m f =
     map (\<lambda>i. (f ! i - feature_means m ! i) / feature_stds m ! i)
       [0..<min (length f) (length (feature_means m))]
     @ drop (min (length f) (length (feature_means m))) f"
  unfolding normalizeFeatureVector_def
  using fold_update_upt[of "min (length f) (length (feature_means m))" f
      "\<lambda>i v. (v - feature_means m ! i) / feature_stds m ! i"]
  by simp

lemma normalizeFeatureVector_short:
  "length f \<le> length (feature_means m) \<Longrightarrow>
   normalizeFeatureVector m f =
     map (\<lambda>i. (f ! i - feature_means m ! i) / feature_stds m ! i) [0..<length f]"
  by (simp add: normalizeFeatureVector_eq min_def)

lemma trainModel_feature_means:
  "ps \<noteq> [] \<Longrightarrow>
   feature_means (snd (trainModel ps m)) =
     feature_means (calculateNormalizationParams
        (fst (extract_all ps (initializeEncodings ps m)))
        (snd (extract_all ps (initializeEncodings ps m))))"
  by (simp add: trainModel_def Let_def split_beta trainLinearRegression_encodings)

lemma initializeEncodings_fields:
  "feature_means (initializeEncodings ps m) = feature_means m"
  "feature_stds (initializeEncodings ps m) = feature_stds m"
proof -
  let ?step = "\<lambda>p m'.
             let m1 = m'\<lparr>city_encoding := snd (encodeCategorical (getCity p) (city_encoding m'))\<rparr>
             in m1\<lparr>type_encoding := snd (encodeCategorical (getType p) (type_encoding m1))\<rparr>"
  have a: "feature_means (fold ?step ps m0) = feature_means m0" for m0
    by (induction ps arbitrary: m0) (simp_all add: Let_def)
  have b: "feature_stds (fold ?step ps m0) = feature_stds m0" for m0
    by (induction ps arbitrary: m0) (simp_all add: Let_def)
  show "feature_means (initializeEncodings ps m) = feature_means m"
    unfolding initializeEncodings_def by (simp only: a) simp
  show "feature_stds (initializeEncodings ps m) = feature_stds m"
    unfolding initializeEncodings_def by (simp only: b) simp
qed

lemma extract_all_pune:
  "fst (extract_all [listing_pune] (initializeEncodings [listing_pune] m)) =
     [[0, 0, 2, 2, 1000, 18, 73, 500, 1]]"
proof -
  have "city_encoding (initializeEncodings [listing_pune] m) ''Pune'' = Some 0"
    "type_encoding (initializeEncodings [listing_pune] m) ''Apartment'' = Some 0"
    by (simp_all add: initializeEncodings_city initializeEncodings_type encodeCategorical_def
        listing_pune_def)
  then show ?thesis
    by (simp add: extractFeatures_def encodeCategorical_def listing_pune_def split_beta)
qed

lemma one_row_means:
  "length row = n \<Longrightarrow>
   feature_means (calculateNormalizationParams [row] m) =
     map (\<lambda>i. resize (feature_means m) n 0 ! i + row ! i) [0..<n]"
  using calculateNormalizationParams_formula(1)[of "[row]" m] by simp

lemma trainModel_pune_means:
  "feature_means (snd (trainModel [listing_pune] m)) =
     map (\<lambda>i. resize (feature_means m) 9 0 ! i + [0, 0, 2, 2, 1000, 18, 73, 500, 1] ! i)
       [0..<9]"
proof -
  define m1 where "m1 = initializeEncodings [listing_pune] m"
  define m2 where "m2 = snd (extract_all [listing_pune] m1)"
  have X: "fst (extract_all [listing_pune] m1) = [[0, 0, 2, 2, 1000, 18, 73, 500, 1]]"
    unfolding m1_def by (rule extract_all_pune)
  have fm: "feature_means m2 = feature_means m"
    unfolding m2_def m1_def by (simp only: extract_all_fields initializeEncodings_fields)
  have len: "length [0, 0, 2, 2, 1000, 18, 73, 500, 1 :: real] = 9"
    by simp
  have "feature_means (snd (trainModel [listing_pune] m)) =
        feature_means (calculateNormalizationParams (fst (extract_all [listing_pune] m1)) m2)"
    unfolding m1_def m2_def by (rule trainModel_feature_means) simp
  also have "\<dots> = feature_means (calculateNormalizationParams [[0, 0, 2, 2, 1000, 18, 73, 500, 1]] m2)"
    by (simp only: X)
  also have "\<dots> = map (\<lambda>i. resize (feature_means m2) 9 0 ! i
                             + [0, 0, 2, 2, 1000, 18, 73, 500, 1] ! i) [0..<9]"
    by (rule one_row_means[OF len])
  finally show ?thesis
    by (simp only: fm)
qed

text \<open>
  C9. The claim says that \<^verbatim>\<open>calculateNormalizationParams\<close> computes the arithmetic mean of
  every feature column. That holds for the first training of a model
  (\<open>calculateNormalizationParams_fresh\<close>). \<^verbatim>\<open>resize(num_features, 0.0)\<close> does not reset
  entries that are already there, so a second training adds the column sums to the means
  of the first: training twice on the single listing \<open>listing_pune\<close> stores twice its
  feature values as means, not the feature values.
\<close>

theorem calculateNormalizationParams_retrain_divergence:
  "feature_means (snd (trainModel [listing_pune] new_MLPredictor)) =
     [0, 0, 2, 2, 1000, 18, 73, 500, 1] \<and>
   feature_means (snd (trainModel [listing_pune]
                        (snd (trainModel [listing_pune] new_MLPredictor)))) =
     [0, 0, 4, 4, 2000, 36, 146, 1000, 2]"
proof -
  have 1: "feature_means (snd (trainModel [listing_pune] new_MLPredictor)) =
             [0, 0, 2, 2, 1000, 18, 73, 500, 1]"
    by (simp add: trainModel_pune_means new_MLPredictor_def resize_def upt_0_9)
  have 2: "feature_means (snd (trainModel [listing_pune]
                        (snd (trainModel [listing_pune] new_MLPredictor)))) =
             [0, 0, 4, 4, 2000, 36, 146, 1000, 2]"
    unfolding trainModel_pune_means[of "snd (trainModel [listing_pune] new_MLPredictor)"] 1
    by (simp add: resize_def upt_0_9)
  from 1 2 show ?thesis by simp
qed


subsection \<open>Persistence\<close>

text \<open>The characters of a number written by \<open>show_double\<close>.\<close>

lemma isdigit_digit_char: "d < 10 \<Longrightarrow> isdigit (digit_char d)"
proof -
  assume "d < 10"
  then have "d < length ''0123456789''" by simp
  then have "''0123456789'' ! d \<in> set ''0123456789''" by (rule nth_mem)
  then show ?thesis by (simp only: isdigit_def digit_char_def)
qed

lemma isdigit_not_special:
  "isdigit c \<Longrightarrow> \<not> isspace c \<and> c \<noteq> CHR ''-'' \<and> c \<noteq> CHR ''+'' \<and> c \<noteq> CHR 0x0A"
  by (auto simp: isdigit_def isspace_def)

lemma digits_of_isdigit: "c \<in> set (digits_of k n) \<Longrightarrow> isdigit c"
proof (induction k n rule: digits_of.induct)
  case (1 k n)
  show ?case
  proof (cases "k = 0")
    case True
    with "1.prems" show ?thesis by (simp add: digits_of.simps)
  next
    case False
    with "1.prems" have "c \<in> set (digits_of (k - 1) (n div 10)) \<or> c = digit_char (n mod 10)"
      by (subst (asm) digits_of.simps) auto
    then show ?thesis
      using "1.IH"[OF False] isdigit_digit_char[of "n mod 10"] by auto
  qed
qed

lemma length_digits_of: "length (digits_of k n) = k"
proof (induction k n rule: digits_of.induct)
  case (1 k n)
  show ?case
  proof (cases "k = 0")
    case True
    then show ?thesis by (simp add: digits_of.simps)
  next
    case False
    then show ?thesis
      using "1.IH"[OF False] by (subst digits_of.simps) simp
  qed
qed

lemma show_nat_isdigit: "c \<in> set (show_nat n) \<Longrightarrow> isdigit c"
proof (induction n rule: show_nat.induct)
  case (1 n)
  show ?case
  proof (cases "n < 10")
    case True
    with "1.prems" show ?thesis
      by (subst (asm) show_nat.simps) (simp add: isdigit_digit_char)
  next
    case False
    with "1.prems" have "c \<in> set (show_nat (n div 10)) \<or> c = digit_char (n mod 10)"
      by (subst (asm) show_nat.simps) auto
    then show ?thesis
      using "1.IH"[OF False] isdigit_digit_char[of "n mod 10"] by auto
  qed
qed

lemma set_strip_zeros: "set (strip_zeros s) \<subseteq> set s"
  by (auto simp: strip_zeros_def dest: set_dropWhileD)

lemma with_fraction_chars:
  "c \<in> set (with_fraction ip fp) \<Longrightarrow> c \<in> set ip \<or> c \<in> set fp \<or> c = CHR ''.''"
  using set_strip_zeros[of fp] by (auto simp: with_fraction_def split: if_splits)

lemma with_fraction_hd:
  "ip \<noteq> [] \<Longrightarrow> \<exists>r. with_fraction ip fp = hd ip # r"
  by (cases ip) (auto simp: with_fraction_def)

lemma show_exponent_chars:
  "c \<in> set (show_exponent e) \<Longrightarrow> isdigit c \<or> c \<in> {CHR ''e'', CHR ''+'', CHR ''-''}"
  by (auto simp: show_exponent_def isdigit_def[of "CHR ''0''"] dest: show_nat_isdigit
      split: if_splits)

lemma show_positive_chars:
  "c \<in> set (show_positive x) \<Longrightarrow>
   isdigit c \<or> c \<in> {CHR ''.'', CHR ''e'', CHR ''+'', CHR ''-''}"
proof -
  assume c: "c \<in> set (show_positive x)"
  define e0 where "e0 = dec_exponent x"
  define n0 where "n0 = nat (round_half_even (x * 10 powi (5 - e0)))"
  define n where "n = (if n0 = 1000000 then 100000 else n0)"
  define e where "e = (if n0 = 1000000 then e0 + 1 else e0)"
  define ds where "ds = digits_of 6 n"
  have sp: "show_positive x =
      (if e < -4 \<or> 6 \<le> e then with_fraction (take 1 ds) (drop 1 ds) @ show_exponent e
       else if 0 \<le> e then with_fraction (take (nat e + 1) ds) (drop (nat e + 1) ds)
       else with_fraction ''0'' (replicate (nat (- e - 1)) (CHR ''0'') @ ds))"
    by (simp add: show_positive_def Let_def e0_def n0_def n_def e_def ds_def)
  have d: "isdigit c'" if "c' \<in> set ds" for c'
    using that digits_of_isdigit by (simp add: ds_def)
  have z: "isdigit (CHR ''0'')" by (simp add: isdigit_def)
  from c show ?thesis
    unfolding sp
    by (auto split: if_splits dest!: with_fraction_chars show_exponent_chars in_set_takeD
        in_set_dropD simp: d z)
qed

lemma show_positive_hd: "\<exists>d r. show_positive x = d # r \<and> isdigit d"
proof -
  define e0 where "e0 = dec_exponent x"
  define n0 where "n0 = nat (round_half_even (x * 10 powi (5 - e0)))"
  define n where "n = (if n0 = 1000000 then 100000 else n0)"
  define e where "e = (if n0 = 1000000 then e0 + 1 else e0)"
  define ds where "ds = digits_of 6 n"
  have sp: "show_positive x =
      (if e < -4 \<or> 6 \<le> e then with_fraction (take 1 ds) (drop 1 ds) @ show_exponent e
       else if 0 \<le> e then with_fraction (take (nat e + 1) ds) (drop (nat e + 1) ds)
       else with_fraction ''0'' (replicate (nat (- e - 1)) (CHR ''0'') @ ds))"
    by (simp add: show_positive_def Let_def e0_def n0_def n_def e_def ds_def)
  have len: "length ds = 6" by (simp add: ds_def length_digits_of)
  then have ne: "ds \<noteq> []" by auto
  have hd: "isdigit (hd ds)"
    using ne digits_of_isdigit[of "hd ds" 6 n] by (simp add: ds_def)
  have t1: "take k ds \<noteq> [] \<and> hd (take k ds) = hd ds" if "0 < k" for k
    using that ne by (cases ds; cases k) auto
  consider "e < -4 \<or> 6 \<le> e" | "\<not> (e < -4 \<or> 6 \<le> e)" "0 \<le> e" | "\<not> (e < -4 \<or> 6 \<le> e)" "\<not> 0 \<le> e"
    by blast
  then show ?thesis
  proof cases
    case 1
    from with_fraction_hd[of "take 1 ds" "drop 1 ds"] t1[of 1]
    obtain r where "with_fraction (take 1 ds) (drop 1 ds) = hd ds # r" by auto
    with 1 hd show ?thesis unfolding sp by auto
  next
    case 2
    from with_fraction_hd[of "take (nat e + 1) ds" "drop (nat e + 1) ds"] t1[of "nat e + 1"]
    obtain r where "with_fraction (take (nat e + 1) ds) (drop (nat e + 1) ds) = hd ds # r"
      by auto
    with 2 hd show ?thesis unfolding sp by auto
  next
    case 3
    from with_fraction_hd[of "''0''" "replicate (nat (- e - 1)) (CHR ''0'') @ ds"]
    obtain r where "with_fraction ''0'' (replicate (nat (- e - 1)) (CHR ''0'') @ ds) = CHR ''0'' # r"
      by auto
    with 3 show ?thesis unfolding sp by (auto simp: isdigit_def)
  qed
qed

lemma show_double_no_newline: "CHR 0x0A \<notin> set (show_double x)"
proof
  assume "CHR 0x0A \<in> set (show_double x)"
  then have "CHR 0x0A \<in> set (show_positive x) \<or> CHR 0x0A \<in> set (show_positive (- x))"
    by (auto simp: show_double_def split: if_splits)
  then show False
    by (auto dest!: show_positive_chars simp: isdigit_def)
qed

lemma show_double_nonempty: "show_double x \<noteq> []"
  using show_positive_hd[of x] show_positive_hd[of "- x"]
  by (auto simp: show_double_def)

lemma powi10_Suc: "(10::real) powi (k + 1) = 10 powi k * 10"
  by (simp add: power_int_add)

lemma powi10_pred: "(10::real) powi (k - 1) = 10 powi k / 10"
  by (simp add: power_int_diff)

lemma exp_up_bounds:
  "1 \<le> x \<Longrightarrow> 10 powi (exp_up x) \<le> x \<and> x < 10 powi (exp_up x + 1)"
proof (induction x rule: exp_up.induct)
  case (1 x)
  show ?case
  proof (cases "10 \<le> x")
    case True
    then have "1 \<le> x / 10" by simp
    define k where "k = exp_up (x / 10)"
    define P where "P = (10::real) powi k"
    have p1: "10 powi (k + 1) = P * 10" and p2: "10 powi (k + 1 + 1) = P * 100"
      by (simp_all add: P_def power_int_add)
    from "1.IH"[OF True \<open>1 \<le> x / 10\<close>]
    have "P \<le> x / 10" "x / 10 < P * 10"
      unfolding k_def[symmetric] p1 P_def[symmetric] by simp_all
    then have "P * 10 \<le> x" "x < P * 100" by linarith+
    moreover have "exp_up x = k + 1"
      using True unfolding k_def by (subst exp_up.simps) simp
    ultimately show ?thesis
      by (simp only: p1 p2)
  next
    case False
    then have "exp_up x = 0" by (subst exp_up.simps) simp
    with False "1.prems" show ?thesis by simp
  qed
qed

lemma exp_down_bounds:
  "0 < x \<Longrightarrow> x < 1 \<Longrightarrow> 10 powi (exp_down x) \<le> x \<and> x < 10 powi (exp_down x + 1)"
proof (induction x rule: exp_down.induct)
  case (1 x)
  from "1.prems" have c: "0 < x \<and> x < 1" by simp
  then have e: "exp_down x = exp_down (x * 10) - 1"
    by (subst exp_down.simps) simp
  show ?case
  proof (cases "x * 10 < 1")
    case True
    define k where "k = exp_down (x * 10)"
    define P where "P = (10::real) powi k"
    have p1: "10 powi (k + 1) = P * 10" and p2: "10 powi (k - 1) = P / 10"
      and p3: "10 powi (k - 1 + 1) = P"
      by (simp_all add: P_def power_int_add power_int_diff)
    have "0 < x * 10" using c by simp
    from "1.IH"[OF c this True]
    have "P \<le> x * 10" "x * 10 < P * 10"
      unfolding k_def[symmetric] p1 P_def[symmetric] by simp_all
    then have "P / 10 \<le> x" "x < P" by linarith+
    then show ?thesis
      unfolding e k_def[symmetric] by (simp only: p2 p3)
  next
    case False
    then have "exp_down (x * 10) = 0" by (subst exp_down.simps) simp
    with False c show ?thesis
      unfolding e by simp
  qed
qed

lemma dec_exponent_bounds:
  "0 < x \<Longrightarrow> 10 powi (dec_exponent x) \<le> x \<and> x < 10 powi (dec_exponent x + 1)"
  using exp_up_bounds[of x] exp_down_bounds[of x]
  by (cases "1 \<le> x") (simp_all add: dec_exponent_def)

lemma round_half_even_bounds:
  "of_int a \<le> x \<Longrightarrow> x \<le> of_int b \<Longrightarrow> a \<le> round_half_even x \<and> round_half_even x \<le> b"
proof -
  assume a: "of_int a \<le> x" and b: "x \<le> of_int b"
  have fa: "a \<le> \<lfloor>x\<rfloor>" using a by (simp add: le_floor_iff)
  have fb: "\<lfloor>x\<rfloor> \<le> b" using b by (simp add: floor_le_iff)
  have "\<lfloor>x\<rfloor> + 1 \<le> b" if "x \<noteq> of_int \<lfloor>x\<rfloor>"
  proof -
    have "of_int \<lfloor>x\<rfloor> < x" using that of_int_floor_le[of x] by linarith
    with b have "of_int \<lfloor>x\<rfloor> < (of_int b :: real)" by linarith
    then show ?thesis by simp
  qed
  with fa fb show ?thesis
    by (auto simp: round_half_even_def Let_def)
qed

lemma round_half_even_of_int: "round_half_even (of_int k) = k"
  by (simp add: round_half_even_def)

lemma digit_val_digit_char: "d < 10 \<Longrightarrow> digit_val (digit_char d) = d"
proof -
  assume "d < 10"
  then have "d \<in> {0, 1, 2, 3, 4, 5, 6, 7, 8, 9}" by auto
  then show ?thesis
    by (auto simp: digit_val_def digit_char_def)
qed

lemma digits_val_snoc: "digits_val (s @ [c]) = 10 * digits_val s + digit_val c"
  by (simp add: digits_val_def)

lemma digits_val_append:
  "digits_val (xs @ ys) = digits_val xs * 10 ^ length ys + digits_val ys"
proof (induction ys rule: rev_induct)
  case Nil
  then show ?case by (simp add: digits_val_def)
next
  case (snoc c ys)
  have "digits_val (xs @ ys @ [c]) = 10 * digits_val (xs @ ys) + digit_val c"
    using digits_val_snoc[of "xs @ ys" c] by simp
  then show ?case
    by (simp add: snoc.IH digits_val_snoc algebra_simps)
qed

lemma digits_val_digits_of: "digits_val (digits_of k n) = n mod 10 ^ k"
proof (induction k n rule: digits_of.induct)
  case (1 k n)
  show ?case
  proof (cases "k = 0")
    case True
    then show ?thesis by (simp add: digits_of.simps digits_val_def)
  next
    case False
    then obtain j where k: "k = Suc j" by (cases k) auto
    have "digits_val (digits_of k n) = 10 * (n div 10 mod 10 ^ j) + n mod 10"
      using "1.IH"[OF False] False k
      by (subst digits_of.simps) (simp add: digits_val_snoc digit_val_digit_char)
    also have "\<dots> = n mod 10 ^ k"
      by (simp add: k mod_mult2_eq)
    finally show ?thesis .
  qed
qed

lemma digits_val_show_nat: "digits_val (show_nat n) = n"
proof (induction n rule: show_nat.induct)
  case (1 n)
  show ?case
  proof (cases "n < 10")
    case True
    then show ?thesis
      by (subst show_nat.simps) (simp add: digits_val_def digit_val_digit_char)
  next
    case False
    then show ?thesis
      using "1.IH"[OF False]
      by (subst show_nat.simps) (simp add: digits_val_snoc digit_val_digit_char)
  qed
qed

lemma digits_val_zeros: "digits_val (replicate j (CHR ''0'')) = 0"
proof (induction j)
  case 0
  then show ?case by (simp add: digits_val_def)
next
  case (Suc j)
  have "replicate (Suc j) (CHR ''0'') = replicate j (CHR ''0'') @ [CHR ''0'']"
    by (simp add: replicate_append_same)
  then show ?case
    by (simp only: digits_val_snoc Suc.IH) (simp add: digit_val_def)
qed

lemma takeWhile_eq_replicate:
  "takeWhile (\<lambda>c. c = a) xs = replicate (length (takeWhile (\<lambda>c. c = a) xs)) a"
  by (induction xs) auto

lemma strip_zeros_decomp:
  "\<exists>j. s = strip_zeros s @ replicate j (CHR ''0'')"
proof -
  let ?P = "\<lambda>c. c = CHR ''0''"
  have "rev s = takeWhile ?P (rev s) @ dropWhile ?P (rev s)" by simp
  then have "s = rev (dropWhile ?P (rev s)) @ rev (takeWhile ?P (rev s))"
    by (metis rev_append rev_rev_ident)
  moreover have "rev (takeWhile ?P (rev s)) = replicate (length (takeWhile ?P (rev s))) (CHR ''0'')"
    using takeWhile_eq_replicate[of "CHR ''0''" "rev s"] by (metis rev_replicate)
  ultimately show ?thesis
    unfolding strip_zeros_def by metis
qed

lemma digits_val_strip_zeros:
  "real (digits_val (pre @ strip_zeros fp)) / 10 ^ length (strip_zeros fp) =
   real (digits_val (pre @ fp)) / 10 ^ length fp"
proof -
  obtain j where j: "fp = strip_zeros fp @ replicate j (CHR ''0'')"
    using strip_zeros_decomp by blast
  let ?t = "strip_zeros fp"
  have "digits_val (pre @ fp) = digits_val (pre @ ?t) * 10 ^ j"
    using digits_val_append[of "pre @ ?t" "replicate j (CHR ''0'')"] j
    by (simp add: digits_val_zeros)
  moreover have "length fp = length ?t + j"
    using arg_cong[OF j, of length] by simp
  ultimately show ?thesis
    by (simp add: power_add)
qed

lemma takeWhile_digits_stop:
  assumes "\<forall>c\<in>set ip. isdigit c" and "ex = [] \<or> \<not> isdigit (hd ex)"
  shows "takeWhile isdigit (ip @ ex) = ip" and "dropWhile isdigit (ip @ ex) = ex"
proof -
  have t: "takeWhile isdigit ex = []" and d: "dropWhile isdigit ex = ex"
    using assms(2) by (cases ex; simp)+
  show "takeWhile isdigit (ip @ ex) = ip"
    using assms(1) t by (induction ip) simp_all
  show "dropWhile isdigit (ip @ ex) = ex"
    using assms(1) d by (induction ip) simp_all
qed

lemma show_nat_nonempty: "show_nat n \<noteq> []"
  by (subst show_nat.simps) simp

lemma parse_exponent_signed:
  assumes "\<forall>c\<in>set body. isdigit c" and "body \<noteq> []"
  shows "parse_exponent (CHR ''e'' # CHR ''-'' # body) = - int (digits_val body)"
    and "parse_exponent (CHR ''e'' # CHR ''+'' # body) = int (digits_val body)"
proof -
  have tw: "takeWhile isdigit body = body"
    using assms(1) by (simp add: takeWhile_eq_all_conv)
  show "parse_exponent (CHR ''e'' # CHR ''-'' # body) = - int (digits_val body)"
    using assms(2) by (simp add: parse_exponent_def parse_sign_def tw)
  show "parse_exponent (CHR ''e'' # CHR ''+'' # body) = int (digits_val body)"
    using assms(2) by (simp add: parse_exponent_def parse_sign_def tw)
qed

lemma parse_exponent_show_exponent: "parse_exponent (show_exponent e) = e"
proof -
  define body where "body = (if \<bar>e\<bar> < 10 then ''0'' else []) @ show_nat (nat \<bar>e\<bar>)"
  have z: "isdigit (CHR ''0'')" by (simp add: isdigit_def)
  have dig: "\<forall>c\<in>set body. isdigit c"
  proof
    fix c assume "c \<in> set body"
    then have "c = CHR ''0'' \<or> c \<in> set (show_nat (nat \<bar>e\<bar>))"
      by (auto simp: body_def split: if_splits)
    then show "isdigit c" using z show_nat_isdigit by blast
  qed
  have ne: "body \<noteq> []" by (simp add: body_def show_nat_nonempty)
  have "digits_val ''0'' = 0" by (simp add: digits_val_def digit_val_def)
  then have "digits_val (''0'' @ show_nat (nat \<bar>e\<bar>)) = nat \<bar>e\<bar>"
    unfolding digits_val_append by (simp add: digits_val_show_nat)
  then have val: "digits_val body = nat \<bar>e\<bar>"
    by (cases "\<bar>e\<bar> < 10") (simp_all add: body_def digits_val_show_nat)
  show ?thesis
  proof (cases "e < 0")
    case True
    then have "show_exponent e = CHR ''e'' # CHR ''-'' # body"
      by (simp add: show_exponent_def body_def)
    then show ?thesis
      using True by (simp add: parse_exponent_signed(1)[OF dig ne] val)
  next
    case False
    then have "show_exponent e = CHR ''e'' # CHR ''+'' # body"
      by (simp add: show_exponent_def body_def)
    then show ?thesis
      using False by (simp add: parse_exponent_signed(2)[OF dig ne] val)
  qed
qed

lemma parse_fraction_none: "ex = [] \<or> hd ex = CHR ''e'' \<Longrightarrow> parse_fraction ex = ([], ex)"
  by (cases ex) (auto simp: parse_fraction_def)

lemma parse_fraction_dot:
  "\<forall>c\<in>set fp. isdigit c \<Longrightarrow> ex = [] \<or> hd ex = CHR ''e'' \<Longrightarrow>
   parse_fraction (CHR ''.'' # fp @ ex) = (fp, ex)"
proof -
  assume fp: "\<forall>c\<in>set fp. isdigit c" and ex: "ex = [] \<or> hd ex = CHR ''e''"
  from ex have "ex = [] \<or> \<not> isdigit (hd ex)" by (auto simp: isdigit_def)
  from takeWhile_digits_stop[OF fp this] show ?thesis
    by (simp add: parse_fraction_def)
qed

lemma stod_digits:
  assumes "ip \<noteq> []" and "\<forall>c\<in>set ip. isdigit c" and "t = [] \<or> \<not> isdigit (hd t)"
  shows "stod (ip @ t) =
           (case parse_fraction t of
              (fp, s3) \<Rightarrow> Inr (real (digits_val (ip @ fp)) / 10 ^ length fp
                                 * 10 powi parse_exponent s3))"
proof -
  obtain d ip' where ip: "ip = d # ip'" using assms(1) by (cases ip) auto
  then have d: "isdigit d" using assms(2) by simp
  note sp = isdigit_not_special[OF d]
  have s0: "dropWhile isspace (ip @ t) = ip @ t"
    using sp by (simp add: ip)
  have s1: "parse_sign (ip @ t) = (False, ip @ t)"
    using sp by (simp add: ip parse_sign_def)
  note tw = takeWhile_digits_stop[OF assms(2,3)]
  show ?thesis
    unfolding stod_def s0 s1 using assms(1)
    by (simp add: tw Let_def split_beta)
qed

lemma stod_plain:
  assumes "ip \<noteq> []" and "\<forall>c\<in>set ip. isdigit c" and "\<forall>c\<in>set fp. isdigit c"
    and "ex = [] \<or> hd ex = CHR ''e''"
  shows "stod (ip @ ex) = Inr (real (digits_val ip) * 10 powi parse_exponent ex)"
    and "stod (ip @ ''.'' @ fp @ ex) =
           Inr (real (digits_val (ip @ fp)) / 10 ^ length fp * 10 powi parse_exponent ex)"
proof -
  have e: "ex = [] \<or> \<not> isdigit (hd ex)"
    using assms(4) by (auto simp: isdigit_def)
  show "stod (ip @ ex) = Inr (real (digits_val ip) * 10 powi parse_exponent ex)"
    unfolding stod_digits[OF assms(1,2) e] parse_fraction_none[OF assms(4)] by simp
  have dot: "''.'' @ fp @ ex = [] \<or> \<not> isdigit (hd (''.'' @ fp @ ex))"
    by (simp add: isdigit_def)
  have pf: "parse_fraction (''.'' @ fp @ ex) = (fp, ex)"
    using parse_fraction_dot[OF assms(3,4)] by simp
  show "stod (ip @ ''.'' @ fp @ ex) =
           Inr (real (digits_val (ip @ fp)) / 10 ^ length fp * 10 powi parse_exponent ex)"
    unfolding stod_digits[OF assms(1,2) dot] pf by simp
qed

lemma stod_with_fraction:
  assumes "ip \<noteq> []" and "\<forall>c\<in>set ip. isdigit c" and "\<forall>c\<in>set fp. isdigit c"
    and "ex = [] \<or> hd ex = CHR ''e''"
  shows "stod (with_fraction ip fp @ ex) =
           Inr (real (digits_val (ip @ fp)) / 10 ^ length fp * 10 powi parse_exponent ex)"
proof (cases "strip_zeros fp = []")
  case True
  have "real (digits_val ip) = real (digits_val (ip @ fp)) / 10 ^ length fp"
    using digits_val_strip_zeros[of ip fp] by (simp add: True)
  then show ?thesis
    using stod_plain(1)[OF assms(1,2) assms(3) assms(4)]
    by (simp add: with_fraction_def True)
next
  case False
  have sd: "\<forall>c\<in>set (strip_zeros fp). isdigit c"
    using assms(3) set_strip_zeros[of fp] by auto
  show ?thesis
    using stod_plain(2)[OF assms(1,2) sd assms(4)] digits_val_strip_zeros[of ip fp]
    by (simp add: with_fraction_def False)
qed

lemma stod_minus:
  assumes "isdigit d"
  shows "stod (CHR ''-'' # d # r) = (case stod (d # r) of Inl e \<Rightarrow> Inl e | Inr v \<Rightarrow> Inr (- v))"
  using isdigit_not_special[OF assms]
  by (simp add: stod_def parse_sign_def isspace_def Let_def split_beta)

lemma powi10_nonpos: "e \<le> 5 \<Longrightarrow> (10::real) powi (e - 5) = 1 / 10 ^ nat (5 - e)"
proof -
  assume "e \<le> 5"
  then have "e - 5 = - int (nat (5 - e))" by simp
  then have "(10::real) powi (e - 5) = 10 powi (- int (nat (5 - e)))" by simp
  also have "\<dots> = inverse (10 ^ nat (5 - e))"
    by (simp only: power_int_minus power_int_of_nat)
  finally show ?thesis by (simp add: divide_inverse)
qed

text \<open>Reading back what \<open>show_positive\<close> wrote gives the value rounded to six digits.\<close>

lemma stod_show_positive:
  assumes "0 < x"
  shows "stod (show_positive x) = Inr (round_sig6_pos x)"
proof -
  define e0 where "e0 = dec_exponent x"
  define r where "r = round_half_even (x * 10 powi (5 - e0))"
  define n0 where "n0 = nat r"
  define n where "n = (if n0 = 1000000 then 100000 else n0)"
  define e where "e = (if n0 = 1000000 then e0 + 1 else e0)"
  define ds where "ds = digits_of 6 n"
  have sp: "show_positive x =
      (if e < -4 \<or> 6 \<le> e then with_fraction (take 1 ds) (drop 1 ds) @ show_exponent e
       else if 0 \<le> e then with_fraction (take (nat e + 1) ds) (drop (nat e + 1) ds)
       else with_fraction ''0'' (replicate (nat (- e - 1)) (CHR ''0'') @ ds))"
    by (simp add: show_positive_def Let_def e0_def n0_def r_def n_def e_def ds_def)
  have rp: "round_sig6_pos x = of_int r * 10 powi (e0 - 5)"
    by (simp add: round_sig6_pos_def r_def e0_def)
  \<comment> \<open>the scaled value lies between \<open>10\<^sup>5\<close> and \<open>10\<^sup>6\<close>\<close>
  from dec_exponent_bounds[OF assms]
  have b: "10 powi e0 \<le> x" "x < 10 powi (e0 + 1)" by (simp_all add: e0_def)
  have pos: "0 < (10::real) powi (5 - e0)" by simp
  have "10 powi e0 * 10 powi (5 - e0) \<le> x * 10 powi (5 - e0)"
    using b(1) pos by (simp only: mult_le_cancel_right_pos)
  moreover have "x * 10 powi (5 - e0) < 10 powi (e0 + 1) * 10 powi (5 - e0)"
    using b(2) pos by (simp only: mult_less_cancel_right_pos)
  moreover have "(10::real) powi e0 * 10 powi (5 - e0) = 100000"
    "(10::real) powi (e0 + 1) * 10 powi (5 - e0) = 1000000"
    by (simp_all add: power_int_add[symmetric])
  ultimately have "of_int 100000 \<le> x * 10 powi (5 - e0)" "x * 10 powi (5 - e0) \<le> of_int 1000000"
    by simp_all
  from round_half_even_bounds[OF this] have rb: "100000 \<le> r" "r \<le> 1000000"
    by (simp_all add: r_def)
  then have n0: "real n0 = of_int r" "100000 \<le> n0" "n0 \<le> 1000000"
    by (simp_all add: n0_def)
  have nb: "n < 1000000" using n0 by (simp add: n_def)
  have val: "real n * 10 powi (e - 5) = round_sig6_pos x"
  proof (cases "n0 = 1000000")
    case True
    have "(10::real) powi (e0 + 1 - 5) = 10 powi (e0 - 5) * 10"
      using power_int_add[of "10::real" "e0 - 5" 1] by (simp add: algebra_simps)
    then show ?thesis
      using True n0(1) by (simp add: n_def e_def rp)
  next
    case False
    then show ?thesis using n0(1) by (simp add: n_def e_def rp)
  qed
  \<comment> \<open>the six digits\<close>
  have dig: "\<forall>c\<in>set ds. isdigit c"
    using digits_of_isdigit by (auto simp: ds_def)
  have len: "length ds = 6" by (simp add: ds_def length_digits_of)
  have dv: "digits_val ds = n"
    using nb by (simp add: ds_def digits_val_digits_of)
  have z: "isdigit (CHR ''0'')" by (simp add: isdigit_def)
  consider (sci) "e < -4 \<or> 6 \<le> e" | (fixed) "\<not> (e < -4 \<or> 6 \<le> e)" "0 \<le> e"
    | (small) "\<not> (e < -4 \<or> 6 \<le> e)" "\<not> 0 \<le> e"
    by blast
  then have "stod (show_positive x) = Inr (real n * 10 powi (e - 5))"
  proof cases
    case sci
    have ip: "take 1 ds \<noteq> []" "\<forall>c\<in>set (take 1 ds). isdigit c"
      and fp: "\<forall>c\<in>set (drop 1 ds). isdigit c"
      using dig len by (auto dest: in_set_takeD in_set_dropD)
    have ex: "show_exponent e = [] \<or> hd (show_exponent e) = CHR ''e''"
      by (simp add: show_exponent_def)
    have "stod (with_fraction (take 1 ds) (drop 1 ds) @ show_exponent e) =
            Inr (real (digits_val (take 1 ds @ drop 1 ds)) / 10 ^ length (drop 1 ds)
                 * 10 powi parse_exponent (show_exponent e))"
      by (rule stod_with_fraction[OF ip fp ex])
    also have "\<dots> = Inr (real n / 10 ^ 5 * 10 powi e)"
      by (simp add: dv len parse_exponent_show_exponent)
    also have "real n / 10 ^ 5 * 10 powi e = real n * 10 powi (e - 5)"
      by (simp add: power_int_diff)
    finally show ?thesis using sci by (simp add: sp)
  next
    case fixed
    then have e5: "e \<le> 5" by simp
    let ?k = "nat e + 1"
    have ip: "take ?k ds \<noteq> []" "\<forall>c\<in>set (take ?k ds). isdigit c"
      and fp: "\<forall>c\<in>set (drop ?k ds). isdigit c"
      using dig len by (auto dest: in_set_takeD in_set_dropD)
    have "stod (with_fraction (take ?k ds) (drop ?k ds) @ []) =
            Inr (real (digits_val (take ?k ds @ drop ?k ds)) / 10 ^ length (drop ?k ds)
                 * 10 powi parse_exponent [])"
      by (rule stod_with_fraction[OF ip fp]) simp
    also have "\<dots> = Inr (real n / 10 ^ nat (5 - e))"
    proof -
      have "length (drop ?k ds) = nat (5 - e)" using len fixed e5 by simp
      then show ?thesis by (simp add: dv parse_exponent_def)
    qed
    also have "real n / 10 ^ nat (5 - e) = real n * 10 powi (e - 5)"
      by (simp add: powi10_nonpos[OF e5])
    finally show ?thesis using fixed by (simp add: sp)
  next
    case small
    then have e5: "e \<le> 5" by simp
    let ?fp = "replicate (nat (- e - 1)) (CHR ''0'') @ ds"
    have ip: "''0'' \<noteq> []" "\<forall>c\<in>set ''0''. isdigit c"
      using z by simp_all
    have fp: "\<forall>c\<in>set ?fp. isdigit c"
      using dig z by auto
    have "stod (with_fraction ''0'' ?fp @ []) =
            Inr (real (digits_val (''0'' @ ?fp)) / 10 ^ length ?fp * 10 powi parse_exponent [])"
      by (rule stod_with_fraction[OF ip fp]) simp
    also have "\<dots> = Inr (real n / 10 ^ nat (5 - e))"
    proof -
      have "''0'' @ ?fp = replicate (Suc (nat (- e - 1))) (CHR ''0'') @ ds" by simp
      then have "digits_val (''0'' @ ?fp) = n"
        by (simp only: digits_val_append digits_val_zeros dv)
      moreover have "length ?fp = nat (5 - e)" using len small by simp
      ultimately show ?thesis by (simp add: parse_exponent_def)
    qed
    also have "real n / 10 ^ nat (5 - e) = real n * 10 powi (e - 5)"
      by (simp add: powi10_nonpos[OF e5])
    finally show ?thesis using small by (simp add: sp)
  qed
  then show ?thesis by (simp only: val)
qed

lemma stod_show_double: "stod (show_double x) = Inr (round_sig6 x)"
proof -
  consider "x = 0" | "x < 0" | "0 < x" by linarith
  then show ?thesis
  proof cases
    case 1
    then show ?thesis by (simp add: show_double_def round_sig6_def stod_0)
  next
    case 2
    then have p: "0 < - x" by simp
    obtain d r where dr: "show_positive (- x) = d # r" "isdigit d"
      using show_positive_hd[of "- x"] by blast
    from stod_show_positive[OF p] have "stod (d # r) = Inr (round_sig6_pos (- x))"
      by (simp add: dr)
    then have "stod (CHR ''-'' # d # r) = Inr (- round_sig6_pos (- x))"
      by (simp add: stod_minus[OF dr(2)])
    then show ?thesis
      using 2 by (simp add: show_double_def round_sig6_def dr)
  next
    case 3
    then show ?thesis
      using stod_show_positive[OF 3] by (simp add: show_double_def round_sig6_def)
  qed
qed

text \<open>A value is read back unchanged exactly when it has at most six significant digits.\<close>

lemma round_sig6_pos_exact:
  "(round_sig6_pos x = x) = (\<exists>k::int. x * 10 powi (5 - dec_exponent x) = of_int k)"
proof
  assume eq: "round_sig6_pos x = x"
  have "(10::real) powi (dec_exponent x - 5) * 10 powi (5 - dec_exponent x) = 1"
    by (simp add: power_int_add[symmetric])
  then have "x * 10 powi (5 - dec_exponent x) =
        of_int (round_half_even (x * 10 powi (5 - dec_exponent x)))"
    using arg_cong[OF eq, of "\<lambda>v. v * 10 powi (5 - dec_exponent x)"]
    by (simp add: round_sig6_pos_def mult.assoc)
  then show "\<exists>k::int. x * 10 powi (5 - dec_exponent x) = of_int k" by blast
next
  assume "\<exists>k::int. x * 10 powi (5 - dec_exponent x) = of_int k"
  then obtain k :: int where k: "x * 10 powi (5 - dec_exponent x) = of_int k" by blast
  have "(10::real) powi (5 - dec_exponent x) * 10 powi (dec_exponent x - 5) = 1"
    by (simp add: power_int_add[symmetric])
  then have "x = x * 10 powi (5 - dec_exponent x) * 10 powi (dec_exponent x - 5)"
    by (simp add: mult.assoc)
  then show "round_sig6_pos x = x"
    unfolding round_sig6_pos_def k round_half_even_of_int by (simp add: k)
qed

lemma round_sig6_exact: "(round_sig6 x = x) = six_digits x"
proof -
  have p: "(round_sig6_pos y = y) = six_digits y" if "0 < y" for y
  proof -
    have "(\<exists>k::int. v = of_int k) = (of_int \<lfloor>v\<rfloor> = v)" for v :: real
      by (metis floor_of_int)
    then show ?thesis
      using that by (simp add: round_sig6_pos_exact six_digits_def)
  qed
  consider "x = 0" | "x < 0" | "0 < x" by linarith
  then show ?thesis
  proof cases
    case 1
    then show ?thesis by (simp add: round_sig6_def six_digits_def)
  next
    case 2
    then have "(round_sig6 x = x) = (round_sig6_pos (- x) = - x)"
      by (auto simp: round_sig6_def)
    also have "\<dots> = six_digits (- x)" using 2 by (simp add: p)
    also have "\<dots> = six_digits x" by (simp add: six_digits_def)
    finally show ?thesis .
  next
    case 3
    then show ?thesis using p[OF 3] by (simp add: round_sig6_def)
  qed
qed

lemma map_round_sig6_exact: "(map round_sig6 ws = ws) = list_all six_digits ws"
  by (induction ws) (simp_all add: round_sig6_exact)


lemma read_weights_written:
  "read_weights (concat (map (\<lambda>w. show_double w @ endl) ws)) acc = Inr (acc @ map round_sig6 ws)"
proof (induction ws arbitrary: acc)
  case Nil
  then show ?case by (simp add: read_weights_Nil)
next
  case (Cons w ws)
  have "read_weights (show_double w @ endl @ concat (map (\<lambda>w. show_double w @ endl) ws)) acc =
        read_weights (concat (map (\<lambda>w. show_double w @ endl) ws)) (acc @ [round_sig6 w])"
    by (rule read_weights_line[OF show_double_no_newline show_double_nonempty stod_show_double])
  then show ?case by (simp add: Cons.IH)
qed

text \<open>Loading what \<^verbatim>\<open>saveModel\<close> wrote.\<close>

lemma loadModel_saveModel:
  assumes "is_trained m" and "CHR 0x0A \<notin> set (model_type m)"
  shows "saveModel True m =
           (True, Some (model_type m @ endl @ show_double (bias m) @ endl
                        @ concat (map (\<lambda>w. show_double w @ endl) (weights m))))"
    and "loadModel (snd (saveModel True m)) m0 =
           Inr (True, m0\<lparr>model_type := model_type m, bias := round_sig6 (bias m),
                         weights := map round_sig6 (weights m),
                         is_trained := (weights m \<noteq> [])\<rparr>)"
proof -
  let ?W = "concat (map (\<lambda>w. show_double w @ endl) (weights m))"
  show s: "saveModel True m =
           (True, Some (model_type m @ endl @ show_double (bias m) @ endl @ ?W))"
    using assms(1) by (simp add: saveModel_def)
  have 1: "getline (model_type m @ endl @ show_double (bias m) @ endl @ ?W) =
             Some (model_type m, show_double (bias m) @ endl @ ?W)"
    by (rule getline_line[OF assms(2)])
  have 2: "getline (show_double (bias m) @ endl @ ?W) = Some (show_double (bias m), ?W)"
    by (rule getline_line[OF show_double_no_newline])
  have 3: "read_weights ?W [] = Inr (map round_sig6 (weights m))"
    using read_weights_written[of "weights m" "[]"] by simp
  show "loadModel (snd (saveModel True m)) m0 =
           Inr (True, m0\<lparr>model_type := model_type m, bias := round_sig6 (bias m),
                         weights := map round_sig6 (weights m),
                         is_trained := (weights m \<noteq> [])\<rparr>)"
    unfolding s by (simp add: loadModel_def 1 2 3 stod_show_double)
qed

lemma saveModel_ignores_encodings:
  "saveModel ok (m\<lparr>city_encoding := ce, type_encoding := te,
                    feature_means := fm, feature_stds := fs\<rparr>) = saveModel ok m"
  by (simp add: saveModel_def)

lemmas show_double_eval =
  show_double_def show_positive_def dec_exponent_def round_half_even_def Let_def
  digit_char_def with_fraction_def strip_zeros_def show_exponent_def
  exp_up.simps exp_down.simps digits_of.simps show_nat.simps

lemma round_sig6_examples:
  "round_sig6 1234567 = 1234570" "round_sig6 1 = 1"
  by (simp_all add: round_sig6_def round_sig6_pos_def dec_exponent_def exp_up.simps
      round_half_even_def Let_def)

text \<open>
  C2 (as stated). The claim says that the loaded bias and weights are exactly the saved
  ones. \<^verbatim>\<open>saveModel\<close> writes each number with the stream's default precision of six
  significant digits: the bias 1234567 of \<open>big_bias_model\<close> is written as
  \<^verbatim>\<open>1.23457e+06\<close> and read back as 1234570.
\<close>

theorem loadModel_saveModel_exact_counterexample:
  "is_trained big_bias_model \<and> bias big_bias_model = 1234567 \<and>
   saveModel True big_bias_model =
     (True, Some (''linear_regression'' @ endl @ ''1.23457e+06'' @ endl
                  @ concat (replicate 9 (''1'' @ endl)))) \<and>
   loadModel (snd (saveModel True big_bias_model)) new_MLPredictor =
     Inr (True, new_MLPredictor\<lparr>bias := 1234570, weights := [1, 1, 1, 1, 1, 1, 1, 1, 1],
                                 is_trained := True\<rparr>)"
proof -
  have t: "is_trained big_bias_model"
    and nl: "CHR 0x0A \<notin> set (model_type big_bias_model)"
    and b: "bias big_bias_model = 1234567"
    and w: "weights big_bias_model = [1, 1, 1, 1, 1, 1, 1, 1, 1]"
    and mt: "model_type big_bias_model = ''linear_regression''"
    by (simp_all add: big_bias_model_def new_MLPredictor_def)
  have s1: "show_double 1234567 = ''1.23457e+06''" and s2: "show_double 1 = ''1''"
    by (simp_all add: show_double_eval)
  have r9: "replicate 9 x = [x, x, x, x, x, x, x, x, x]" for x :: string
    by (simp add: numeral_eq_Suc)
  have "saveModel True big_bias_model =
     (True, Some (''linear_regression'' @ endl @ ''1.23457e+06'' @ endl
                  @ concat (replicate 9 (''1'' @ endl))))"
    unfolding loadModel_saveModel(1)[OF t nl] b w mt r9 by (simp add: s1 s2)
  moreover have "loadModel (snd (saveModel True big_bias_model)) new_MLPredictor =
     Inr (True, new_MLPredictor\<lparr>bias := 1234570, weights := [1, 1, 1, 1, 1, 1, 1, 1, 1],
                                 is_trained := True\<rparr>)"
    unfolding loadModel_saveModel(2)[OF t nl] b w mt
    by (simp add: round_sig6_examples new_MLPredictor_def)
  ultimately show ?thesis using t b by simp
qed

text \<open>
  C2 (amended). For every trained model whose type label contains no line break, saving
  it and loading the saved text into a model succeeds and yields the label, the bias and
  the weights in the same order and number, each number rounded to six significant decimal
  digits (it is the saved value exactly when that value has at most six significant
  digits); the loaded model's trained flag is true exactly when the weight count is
  positive. The encodings and normalization parameters are not written: the saved text
  does not depend on them, and the loading model keeps its own.
\<close>

theorem loadModel_saveModel_roundtrip:
  assumes "is_trained m" and "CHR 0x0A \<notin> set (model_type m)"
  shows "fst (saveModel True m) \<and>
         loadModel (snd (saveModel True m)) m0 =
           Inr (True, m0\<lparr>model_type := model_type m, bias := round_sig6 (bias m),
                         weights := map round_sig6 (weights m),
                         is_trained := (0 < length (weights m))\<rparr>) \<and>
         (round_sig6 (bias m) = bias m) = six_digits (bias m) \<and>
         (map round_sig6 (weights m) = weights m) = list_all six_digits (weights m) \<and>
         saveModel True (m\<lparr>city_encoding := ce, type_encoding := te,
                            feature_means := fm, feature_stds := fs\<rparr>) = saveModel True m"
  using loadModel_saveModel(1)[OF assms] loadModel_saveModel(2)[OF assms, of m0]
  by (simp add: saveModel_ignores_encodings round_sig6_exact map_round_sig6_exact)

theorem loadModel_saveModel_roundtrip_witness:
  "is_trained big_bias_model \<and> CHR 0x0A \<notin> set (model_type big_bias_model) \<and>
   fst (saveModel True big_bias_model) \<and> \<not> six_digits (bias big_bias_model) \<and>
   list_all six_digits (weights big_bias_model) \<and>
   loadModel (snd (saveModel True big_bias_model)) one_weight_model =
     Inr (True, one_weight_model\<lparr>model_type := ''linear_regression'', bias := 1234570,
                                  weights := [1, 1, 1, 1, 1, 1, 1, 1, 1],
                                  is_trained := True\<rparr>)"
proof -
  have t: "is_trained big_bias_model"
    and nl: "CHR 0x0A \<notin> set (model_type big_bias_model)"
    by (simp_all add: big_bias_model_def new_MLPredictor_def)
  have f: "bias big_bias_model = 1234567" "weights big_bias_model = [1, 1, 1, 1, 1, 1, 1, 1, 1]"
    "model_type big_bias_model = ''linear_regression''"
    by (simp_all add: big_bias_model_def new_MLPredictor_def)
  have six: "\<not> six_digits 1234567" "six_digits 1"
    using round_sig6_exact[of 1234567, symmetric] round_sig6_exact[of 1, symmetric]
    by (simp_all add: round_sig6_examples)
  from loadModel_saveModel_roundtrip[OF t nl, of one_weight_model] t nl six
  show ?thesis
    by (simp add: f round_sig6_examples)
qed

end
